theory Spec2Isabelle
  imports Main
begin

section \<open>XML elements and the values the validator reads\<close>

text \<open>
  A rule of the mechanics XML, and an element of the book XML, is an element with a
  name, attributes and child elements. \<open>attr\<close> is jQuery's \<open>.attr(name)\<close>: the value of
  the attribute, or \<open>undefined\<close> (here \<open>None\<close>) when the element has none of that name.
\<close>

datatype node = Node (nodeName: string) (attributes: "(string \<times> string) list") (children: "node list")

definition attr :: "node \<Rightarrow> string \<Rightarrow> string option" where
  "attr n k = map_of (attributes n) k"

text \<open>
  JavaScript truthiness of a value of type \<open>string | undefined\<close>: \<open>undefined\<close> and the
  empty string are falsy, every other string is truthy.
\<close>

definition truthy :: "string option \<Rightarrow> bool" where
  "truthy a = (case a of None \<Rightarrow> False | Some s \<Rightarrow> s \<noteq> [])"

text \<open>
  A jQuery object (the result of \<open>find\<close>) is modelled by the list of elements it
  holds. It is a JavaScript object, and every object is truthy, also one that holds no
  element.
\<close>

definition jq_truthy :: "node list \<Rightarrow> bool" where
  "jq_truthy q = True"

text \<open>
  The numbers of a case rule's bounds are results of \<open>parseInt\<close>: \<open>NaN\<close>, an infinity,
  or a double whose value is an integer; \<open>Num n\<close> is the double of value \<open>n\<close>. Every
  comparison with \<open>NaN\<close> is false.
\<close>

datatype number = NaN | NegInf | Num int | PosInf

fun num_le :: "number \<Rightarrow> number \<Rightarrow> bool" where
  "num_le NaN _ = False"
| "num_le _ NaN = False"
| "num_le NegInf _ = True"
| "num_le _ PosInf = True"
| "num_le (Num a) (Num b) = (a \<le> b)"
| "num_le _ _ = False"

fun num_lt :: "number \<Rightarrow> number \<Rightarrow> bool" where
  "num_lt NaN _ = False"
| "num_lt _ NaN = False"
| "num_lt PosInf _ = False"
| "num_lt _ PosInf = True"
| "num_lt _ NegInf = False"
| "num_lt NegInf _ = True"
| "num_lt (Num a) (Num b) = (a < b)"

definition num_gt :: "number \<Rightarrow> number \<Rightarrow> bool" where
  "num_gt a b = num_lt b a"

text \<open>
  \<open>i++\<close> on a double of integer value: the sum \<open>i + 1\<close> rounded to the nearest double,
  ties to the even significand. It is exact from \<open>-2^53\<close> to \<open>2^53 - 1\<close>. A double of
  magnitude in \<open>[2^53, 2^54)\<close> is even, and \<open>i + 1\<close> lies half way between \<open>i\<close> and
  \<open>i + 2\<close>. From magnitude \<open>2^54\<close> on, \<open>i + 1\<close> rounds back to \<open>i\<close>.
\<close>

definition js_inc :: "int \<Rightarrow> int" where
  "js_inc i =
     (if - (2 ^ 53) \<le> i \<and> i < 2 ^ 53 then i + 1
      else if (2 ^ 53 \<le> i \<and> i < 2 ^ 54) \<or> (- (2 ^ 54) < i \<and> i < - (2 ^ 53))
           then (if even (i div 2) then i else i + 2)
      else i)"

fun num_inc :: "number \<Rightarrow> number" where
  "num_inc (Num i) = Num (js_inc i)"
| "num_inc x = x"

text \<open>\<open>Array.prototype.contains\<close>, the repository's extension of arrays: membership.\<close>

definition contains :: "'a list \<Rightarrow> 'a \<Rightarrow> bool" where
  "contains xs x \<longleftrightarrow> x \<in> set xs"

section \<open>The collaborators of the validator\<close>

type_synonym Item = string

record Mechanics =
  getSection :: "string \<Rightarrow> node option"
  getObject :: "string \<Rightarrow> Item option"
  getLastSectionId :: string
  mechanicsXmlText :: "string option"
  mechanicsXml :: node

record Book =
  bookNumber :: nat
  getSectionXml :: "string \<Rightarrow> node list"
  getDisciplinesTable :: "string \<Rightarrow> string option"

text \<open>
  Modelled from the spec: the class \<open>Section\<close> is not among the sources. It is a
  runtime view over one section's XML within a book, computed from the book, the section
  id and the mechanics; \<open>xmlSection\<close> is the section's XML (\<open>$xmlSection\<close>), empty when
  the book has no such section.
\<close>

record Section =
  sectionId :: string
  xmlSection :: "node list"
  sectionBook :: Book
  sectionMechanics :: Mechanics

definition new_Section :: "Book \<Rightarrow> string \<Rightarrow> Mechanics \<Rightarrow> Section" where
  "new_Section b sid m =
     \<lparr>sectionId = sid, xmlSection = getSectionXml b sid, sectionBook = b, sectionMechanics = m\<rparr>"

text \<open>The argument of xmllint.js.\<close>

record xmllint_module =
  xml :: string
  schema :: string
  arguments :: "string list"

text \<open>
  What a call raises. \<open>SyntaxError\<close> is the error of jQuery on a selector it cannot
  parse, \<open>TypeError\<close> the error of JavaScript on the call of a value that is not a
  function. \<open>Unmodelled name\<close> is not an error of the code: it marks the call of the
  member \<open>name\<close> of the validator object, which the model does not follow (see
  \<open>thisMember\<close> below).
\<close>

datatype exn = SyntaxError string | TypeError string | Unmodelled string

text \<open>
  The outcome of a call: \<open>None\<close> when the call does not return, \<open>Some (Inl e)\<close> when it
  raises \<open>e\<close>, \<open>Some (Inr x)\<close> when it returns \<open>x\<close>.
\<close>

type_synonym 'a outcome = "(exn + 'a) option"

text \<open>
  What the validator calls and the sources do not hold is a parameter of the model:
  the constant \<open>Book.INITIAL_SECTION\<close>, \<open>Section.getNextSectionId\<close>,
  \<open>mechanicsEngine.getArrayProperty\<close>, \<open>randomMechanics.getCaseRuleBounds\<close>, jQuery's
  \<open>find\<close> on a set of elements with a selector (which raises on a selector it cannot
  parse), \<open>XMLSerializer.serializeToString\<close> and \<open>validateXML\<close> of xmllint.js. But for
  \<open>find\<close>, each of them is taken to return.
\<close>

record Externals =
  INITIAL_SECTION :: string
  getNextSectionId :: "Section \<Rightarrow> string"
  getArrayProperty :: "node \<Rightarrow> string \<Rightarrow> string list"
  getCaseRuleBounds :: "node \<Rightarrow> (number \<times> number) option"
  jq_find :: "node list \<Rightarrow> string \<Rightarrow> exn + node list"
  serializeToString :: "node \<Rightarrow> string"
  validateXML :: "xmllint_module \<Rightarrow> string"

section \<open>The validator\<close>

text \<open>
  The fields of \<open>BookValidator\<close>. \<open>currentSection\<close> has the declared type
  \<open>Section\<close>; \<open>validateSectionInternal\<close> assigns it before any rule is validated.
  \<open>xsdText\<close> is the static field of the class, \<open>None\<close> until the XSD is downloaded.
  \<open>console\<close> is what \<open>console.log\<close> has printed.
\<close>

record BookValidator =
  mechanics :: Mechanics
  book :: Book
  errors :: "string list"
  currentSection :: Section
  xsdText :: "string option"
  console :: "string list"

definition formatError :: "string \<Rightarrow> string \<Rightarrow> string \<Rightarrow> string" where
  "formatError sid tag errorMsg = ''Section '' @ sid @ '', rule '' @ tag @ '': '' @ errorMsg"

definition addError :: "BookValidator \<Rightarrow> node \<Rightarrow> string \<Rightarrow> BookValidator" where
  "addError v rule errorMsg =
     v\<lparr>errors := errors v @ [formatError (sectionId (currentSection v)) (nodeName rule) errorMsg]\<rparr>"

subsection \<open>Common attributes validation\<close>

definition getPropertyValueAsArray :: "Externals \<Rightarrow> node \<Rightarrow> string \<Rightarrow> bool \<Rightarrow> string list" where
  "getPropertyValueAsArray E rule property allowMultiple =
     (if allowMultiple then getArrayProperty E rule property
      else (case attr rule property of
              Some v \<Rightarrow> if v \<noteq> [] then [v] else []
            | None \<Rightarrow> []))"

definition validateObjectIdsAttribute ::
  "Externals \<Rightarrow> BookValidator \<Rightarrow> node \<Rightarrow> string \<Rightarrow> bool \<Rightarrow> BookValidator \<times> bool" where
  "validateObjectIdsAttribute E v rule property allowMultiple =
     (let objectIds = getPropertyValueAsArray E rule property allowMultiple in
      if length objectIds = 0 then (v, False)
      else (fold (\<lambda>objectId w.
                    if getObject (mechanics w) objectId = None
                    then addError w rule (''Object id '' @ objectId @ '' not found'')
                    else w) objectIds v,
            True))"

definition validateNumericExpression :: "BookValidator \<Rightarrow> node \<Rightarrow> string \<Rightarrow> BookValidator" where
  "validateNumericExpression v rule property = v"

definition validateBooleanExpression :: "BookValidator \<Rightarrow> node \<Rightarrow> string \<Rightarrow> BookValidator" where
  "validateBooleanExpression v rule property = v"

definition validateDisciplinesAttribute ::
  "Externals \<Rightarrow> BookValidator \<Rightarrow> node \<Rightarrow> string \<Rightarrow> bool \<Rightarrow> BookValidator" where
  "validateDisciplinesAttribute E v rule property allowMultiple =
     (let disciplinesIds = getPropertyValueAsArray E rule property allowMultiple in
      if length disciplinesIds = 0 then v
      else (let disciplinesTable = getDisciplinesTable (book v) in
            fold (\<lambda>disciplineId w.
                    if disciplinesTable disciplineId = None
                    then addError w rule (''Wrong discipline id: '' @ disciplineId)
                    else w) disciplinesIds v))"

definition validateSectionsAttribute ::
  "Externals \<Rightarrow> BookValidator \<Rightarrow> node \<Rightarrow> string \<Rightarrow> bool \<Rightarrow> BookValidator" where
  "validateSectionsAttribute E v rule property allowMultiple =
     (let sectionIds = getPropertyValueAsArray E rule property allowMultiple in
      fold (\<lambda>sid w.
              if length (getSectionXml (book w) sid) = 0
              then addError w rule (''Section does not exists: '' @ sid)
              else w) sectionIds v)"

definition validateSectionChoiceAttribute ::
  "Externals \<Rightarrow> BookValidator \<Rightarrow> node \<Rightarrow> string \<Rightarrow> exn + BookValidator" where
  "validateSectionChoiceAttribute E v rule property =
     (case attr rule property of
        None \<Rightarrow> Inr v
      | Some sid \<Rightarrow>
          if sid = [] then Inr v
          else (case jq_find E (xmlSection (currentSection v)) (''choice[idref='' @ sid @ '']'') of
                  Inl e \<Rightarrow> Inl e
                | Inr choices \<Rightarrow>
                    if length choices = 0
                    then Inr (addError v rule (''No choice found on this section with destination to '' @ sid))
                    else Inr v))"

subsection \<open>Validation of the XML against the XSD\<close>

text \<open>
  \<open>xmlText.replace( /[...]/gi , '' )\<close> removes the acute vowels of both cases, the
  inverted marks and the right single quotation mark. A string is its UTF-8 bytes here,
  so each of these characters is the two or three bytes that encode it.
\<close>

definition strippedChars :: "string list" where
  "strippedChars =
     [[CHR 0xC3, CHR 0xA1], [CHR 0xC3, CHR 0xA9], [CHR 0xC3, CHR 0xAD], [CHR 0xC3, CHR 0xB3],
      [CHR 0xC3, CHR 0xBA], [CHR 0xC3, CHR 0x81], [CHR 0xC3, CHR 0x89], [CHR 0xC3, CHR 0x8D],
      [CHR 0xC3, CHR 0x93], [CHR 0xC3, CHR 0x9A], [CHR 0xC2, CHR 0xA1], [CHR 0xC2, CHR 0xBF],
      [CHR 0xE2, CHR 0x80, CHR 0x99]]"

fun stripChars :: "string \<Rightarrow> string" where
  "stripChars [] = []"
| "stripChars (c # cs) =
     (if [c] @ take 1 cs \<in> set strippedChars then stripChars (drop 1 cs)
      else if [c] @ take 2 cs \<in> set strippedChars then stripChars (drop 2 cs)
      else c # stripChars cs)"

text \<open>
  \<open>String.prototype.trim\<close> removes the white space and the line terminators of
  ECMAScript from both ends. \<open>whiteSpace\<close> lists them as UTF-8 bytes: U+0009 to U+000D,
  U+0020, U+00A0, U+1680, U+2000 to U+200A, U+2028, U+2029, U+202F, U+205F, U+3000 and
  U+FEFF.
\<close>

definition whiteSpace :: "string list" where
  "whiteSpace =
     [[CHR 0x09], [CHR 0x0A], [CHR 0x0B], [CHR 0x0C], [CHR 0x0D], [CHR 0x20],
      [CHR 0xC2, CHR 0xA0], [CHR 0xE1, CHR 0x9A, CHR 0x80],
      [CHR 0xE2, CHR 0x80, CHR 0x80], [CHR 0xE2, CHR 0x80, CHR 0x81],
      [CHR 0xE2, CHR 0x80, CHR 0x82], [CHR 0xE2, CHR 0x80, CHR 0x83],
      [CHR 0xE2, CHR 0x80, CHR 0x84], [CHR 0xE2, CHR 0x80, CHR 0x85],
      [CHR 0xE2, CHR 0x80, CHR 0x86], [CHR 0xE2, CHR 0x80, CHR 0x87],
      [CHR 0xE2, CHR 0x80, CHR 0x88], [CHR 0xE2, CHR 0x80, CHR 0x89],
      [CHR 0xE2, CHR 0x80, CHR 0x8A], [CHR 0xE2, CHR 0x80, CHR 0xA8],
      [CHR 0xE2, CHR 0x80, CHR 0xA9], [CHR 0xE2, CHR 0x80, CHR 0xAF],
      [CHR 0xE2, CHR 0x81, CHR 0x9F], [CHR 0xE3, CHR 0x80, CHR 0x80],
      [CHR 0xEF, CHR 0xBB, CHR 0xBF]]"

fun dropSpaces :: "string list \<Rightarrow> string \<Rightarrow> string" where
  "dropSpaces ws [] = []"
| "dropSpaces ws (c # cs) =
     (if [c] \<in> set ws then dropSpaces ws cs
      else if [c] @ take 1 cs \<in> set ws then dropSpaces ws (drop 1 cs)
      else if [c] @ take 2 cs \<in> set ws then dropSpaces ws (drop 2 cs)
      else c # cs)"

definition trim :: "string \<Rightarrow> string" where
  "trim s = rev (dropSpaces (map rev whiteSpace) (rev (dropSpaces whiteSpace s)))"

text \<open>The decimal digits of a number, as string concatenation writes them.\<close>

fun numberToString :: "nat \<Rightarrow> string" where
  "numberToString n =
     (if n < 10 then [char_of (48 + n)]
      else numberToString (n div 10) @ [char_of (48 + n mod 10)])"

definition validateXml :: "Externals \<Rightarrow> BookValidator \<Rightarrow> BookValidator" where
  "validateXml E v =
     (if \<not> truthy (xsdText v)
      then v\<lparr>errors := errors v @ [''The XSD for mechanics validation has not been downloaded'']\<rparr>
      else
        (let xmlText0 =
               (if truthy (mechanicsXmlText (mechanics v))
                then (case mechanicsXmlText (mechanics v) of Some t \<Rightarrow> t | None \<Rightarrow> [])
                else serializeToString E (mechanicsXml (mechanics v)));
             xmlText = stripChars xmlText0;
             mechanicsFileName = ''mechanics-'' @ numberToString (bookNumber (book v)) @ ''.xml'';
             module = \<lparr>xml = xmlText,
                       schema = (case xsdText v of Some t \<Rightarrow> t | None \<Rightarrow> []),
                       arguments = [''--noout'', ''--schema'', ''mechanics.xsd'', mechanicsFileName]\<rparr>;
             xmllint = trim (validateXML E module);
             v1 = (if xmllint \<noteq> mechanicsFileName @ '' validates''
                   then v\<lparr>errors := errors v @ [xmllint]\<rparr> else v)
         in v1\<lparr>console := console v1 @ [xmllint]\<rparr>))"

subsection \<open>Rules validation\<close>

definition dq :: "string \<Rightarrow> string" where
  "dq s = [CHR 0x22] @ s @ [CHR 0x22]"

definition pick :: "Externals \<Rightarrow> BookValidator \<Rightarrow> node \<Rightarrow> BookValidator" where
  "pick E v rule =
     (let (v1, objectIdFound) = validateObjectIdsAttribute E v rule ''objectId'' False;
          classFound = truthy (attr rule ''class'');
          onlyOne = ((objectIdFound \<and> \<not> classFound) \<or> (\<not> objectIdFound \<and> classFound));
          v2 = (if \<not> onlyOne
                then addError v1 rule
                       (''Must to have a '' @ dq ''objectId'' @ '' or '' @ dq ''class'' @ '' attribute, and only one'')
                else v1);
          v3 = (if classFound \<and> \<not> truthy (attr rule ''count'')
                then addError v2 rule (''Must to have a '' @ dq ''count'' @ '' attribute'')
                else v2)
      in validateNumericExpression v3 rule ''count'')"

text \<open>
  The loops of \<open>randomTable\<close> over the numbers of one case and over the children of
  the rule. The state of the loops is \<open>(coverage, overlapped, nCasesFound)\<close>.
  \<open>coverNumber\<close> is the body of the inner loop and \<open>coverNumbers\<close> the inner loop, with
  its counter \<open>i\<close> a double: it does not return when \<open>i++\<close> no longer changes \<open>i\<close>.
  \<open>coverChild\<close> is the body of the outer loop and \<open>coverChildren\<close> the outer loop.
\<close>

definition coverNumber :: "number \<Rightarrow> number list \<times> bool \<Rightarrow> number list \<times> bool" where
  "coverNumber i s =
     (case s of (coverage, overlapped) \<Rightarrow>
        if contains coverage i then (coverage, True) else (coverage @ [i], overlapped))"

partial_function (option) coverNumbers ::
  "number \<Rightarrow> number \<Rightarrow> number list \<times> bool \<Rightarrow> (number list \<times> bool) option" where
  "coverNumbers i hi s =
     (if num_le i hi then coverNumbers (num_inc i) hi (coverNumber i s) else Some s)"

definition coverChild ::
  "Externals \<Rightarrow> node \<Rightarrow> number list \<times> bool \<times> nat \<Rightarrow> (number list \<times> bool \<times> nat) option" where
  "coverChild E child s =
     (case s of (coverage, overlapped, nCasesFound) \<Rightarrow>
        if nodeName child = ''case'' then
          (case getCaseRuleBounds E child of
             None \<Rightarrow> Some (coverage, overlapped, nCasesFound + 1)
           | Some (lo, hi) \<Rightarrow>
               if num_le lo hi
               then (case coverNumbers lo hi (coverage, overlapped) of
                       None \<Rightarrow> None
                     | Some (coverage', overlapped') \<Rightarrow> Some (coverage', overlapped', nCasesFound + 1))
               else Some (coverage, overlapped, nCasesFound + 1))
        else Some (coverage, overlapped, nCasesFound))"

fun coverChildren ::
  "Externals \<Rightarrow> node list \<Rightarrow> number list \<times> bool \<times> nat \<Rightarrow> (number list \<times> bool \<times> nat) option" where
  "coverChildren E [] s = Some s"
| "coverChildren E (child # rest) s =
     (case coverChild E child s of None \<Rightarrow> None | Some s' \<Rightarrow> coverChildren E rest s')"

text \<open>The lookup of the link to the random table, \<open>$random\<close>.\<close>

definition findRandomLink :: "Externals \<Rightarrow> BookValidator \<Rightarrow> node \<Rightarrow> exn + node list" where
  "findRandomLink E v rule =
     (let txtIndex = (if \<not> truthy (attr rule ''index'') then ''0''
                      else (case attr rule ''index'' of Some t \<Rightarrow> t | None \<Rightarrow> ''0''))
      in jq_find E (xmlSection (currentSection v)) (''a[href=random]:eq( '' @ txtIndex @ '')''))"

definition randomTable :: "Externals \<Rightarrow> BookValidator \<Rightarrow> node \<Rightarrow> BookValidator outcome" where
  "randomTable E v rule =
     (case (if \<not> truthy (attr rule ''text-en'') then
              (case findRandomLink E v rule of
                 Inl e \<Rightarrow> Inl e
               | Inr random \<Rightarrow>
                   if \<not> jq_truthy random
                   then Inr (addError v rule ''Link to random table not found'')
                   else Inr v)
            else Inr v) of
        Inl e \<Rightarrow> Some (Inl e)
      | Inr v1 \<Rightarrow>
          (case coverChildren E (children rule) ([], False, 0) of
             None \<Rightarrow> None
           | Some (coverage, overlapped, nCasesFound) \<Rightarrow>
               if nCasesFound = 0 then Some (Inr v1)
               else
                 (let numberToTest = (if attr rule ''zeroAsTen'' = Some ''true''
                                      then (1, 10) else (0 :: int, 9 :: int));
                      missedNumbers =
                        fold (\<lambda>i missed. if \<not> contains coverage (Num i) then True else missed)
                          [fst numberToTest..snd numberToTest] False;
                      v2 = (if missedNumbers then addError v1 rule ''Missed numbers'' else v1)
                  in Some (Inr (if overlapped then addError v2 rule ''Overlapped numbers'' else v2)))))"

definition caseRule :: "Externals \<Rightarrow> BookValidator \<Rightarrow> node \<Rightarrow> BookValidator" where
  "caseRule E v rule =
     (case getCaseRuleBounds E rule of
        None \<Rightarrow> addError v rule
                 (''Needs '' @ dq ''value'' @ '' or '' @ dq ''from'' @ '' / '' @ dq ''to'' @ '' attributes'')
      | Some (lo, hi) \<Rightarrow> if num_gt lo hi then addError v rule ''Wrong range'' else v)"

definition test :: "Externals \<Rightarrow> BookValidator \<Rightarrow> node \<Rightarrow> exn + BookValidator" where
  "test E v rule =
     (let v1 = validateDisciplinesAttribute E v rule ''hasDiscipline'' True;
          v2 = fst (validateObjectIdsAttribute E v1 rule ''hasObject'' True);
          v3 = validateBooleanExpression v2 rule ''expression'';
          v4 = validateSectionsAttribute E v3 rule ''sectionVisited'' True;
          v5 = fst (validateObjectIdsAttribute E v4 rule ''currentWeapon'' False);
          v6 = (case attr rule ''bookLanguage'' of
                  None \<Rightarrow> v5
                | Some language \<Rightarrow>
                    if language \<noteq> [] \<and> (language \<noteq> ''en'' \<and> language \<noteq> ''es'')
                    then addError v5 rule (''Wrong language: '' @ language)
                    else v5)
      in validateSectionChoiceAttribute E v6 rule ''isChoiceEnabled'')"

subsection \<open>The walk over the rules of a section\<close>

text \<open>
  \<open>this[rule.nodeName]\<close> is a member of the validator object, whatever the member is,
  and the code calls it with the rule when it is truthy. The rule methods are \<open>pick\<close>,
  \<open>randomTable\<close>, \<open>case\<close> and \<open>test\<close>. The other members are the fields and the other
  methods of the class, and the members every object inherits from \<open>Object.prototype\<close>:

  \<^item> \<open>validateXml\<close> takes no argument: the call is the validation against the XSD;
  \<^item> \<open>addError\<close> gets the rule and no message, and appends the formatted error whose
    message is \<open>undefined\<close>;
  \<^item> \<open>noEffectMembers\<close> return and change nothing: the two methods with an empty body,
    and the methods of \<open>Object.prototype\<close> that only read the object;
  \<^item> \<open>notCallableMembers\<close> raise a \<open>TypeError\<close>: the fields and \<open>__proto__\<close> are
    objects, not functions, and \<open>__defineGetter__\<close> and \<open>__defineSetter__\<close> get no
    function;
  \<^item> \<open>unmodelledMembers\<close> are not followed. \<open>validateBook\<close>, \<open>validateChildrenRules\<close>
    and \<open>validateRule\<close> start a validation within the validation. \<open>validateSection\<close> and
    \<open>validateSectionInternal\<close> give the rule, in place of a section id, to \<open>Section\<close>
    and to \<open>Mechanics.getSection\<close>, and the attribute checks and
    \<open>getPropertyValueAsArray\<close> give \<open>undefined\<close>, in place of an attribute name, to
    jQuery's \<open>attr\<close>: the sources hold none of them. What the call of \<open>constructor\<close>
    does depends on the target of the compilation. The model ends the walk at such an
    element with \<open>Unmodelled\<close>, and says nothing of a rule tree that has one.
\<close>

definition noEffectMembers :: "string list" where
  "noEffectMembers =
     [''validateNumericExpression'', ''validateBooleanExpression'',
      ''hasOwnProperty'', ''isPrototypeOf'', ''propertyIsEnumerable'', ''toLocaleString'',
      ''toString'', ''valueOf'', ''__lookupGetter__'', ''__lookupSetter__'']"

definition notCallableMembers :: "string list" where
  "notCallableMembers =
     [''mechanics'', ''book'', ''errors'', ''currentSection'', ''__proto__'',
      ''__defineGetter__'', ''__defineSetter__'']"

definition unmodelledMembers :: "string list" where
  "unmodelledMembers =
     [''constructor'', ''validateBook'', ''validateSection'', ''validateSectionInternal'',
      ''validateChildrenRules'', ''validateRule'', ''getPropertyValueAsArray'',
      ''validateObjectIdsAttribute'', ''validateDisciplinesAttribute'',
      ''validateSectionsAttribute'', ''validateSectionChoiceAttribute'']"

definition thisMember ::
  "string \<Rightarrow> (Externals \<Rightarrow> BookValidator \<Rightarrow> node \<Rightarrow> BookValidator outcome) option" where
  "thisMember name =
     (if name = ''pick'' then Some (\<lambda>E v rule. Some (Inr (pick E v rule)))
      else if name = ''randomTable'' then Some randomTable
      else if name = ''case'' then Some (\<lambda>E v rule. Some (Inr (caseRule E v rule)))
      else if name = ''test'' then Some (\<lambda>E v rule. Some (test E v rule))
      else if name = ''validateXml'' then Some (\<lambda>E v rule. Some (Inr (validateXml E v)))
      else if name = ''addError'' then Some (\<lambda>E v rule. Some (Inr (addError v rule ''undefined'')))
      else if name \<in> set noEffectMembers then Some (\<lambda>E v rule. Some (Inr v))
      else if name \<in> set notCallableMembers then Some (\<lambda>E v rule. Some (Inl (TypeError name)))
      else if name \<in> set unmodelledMembers then Some (\<lambda>E v rule. Some (Inl (Unmodelled name)))
      else None)"

fun validateRule :: "Externals \<Rightarrow> BookValidator \<Rightarrow> node \<Rightarrow> BookValidator outcome"
  and validateRules :: "Externals \<Rightarrow> BookValidator \<Rightarrow> node list \<Rightarrow> BookValidator outcome" where
  "validateRule E v (Node name as cs) =
     (case (case thisMember name of
              Some handler \<Rightarrow> handler E v (Node name as cs)
            | None \<Rightarrow> Some (Inr v)) of
        None \<Rightarrow> None
      | Some (Inl e) \<Rightarrow> Some (Inl e)
      | Some (Inr v1) \<Rightarrow> validateRules E v1 cs)"
| "validateRules E v [] = Some (Inr v)"
| "validateRules E v (child # rest) =
     (case validateRule E v child of
        None \<Rightarrow> None
      | Some (Inl e) \<Rightarrow> Some (Inl e)
      | Some (Inr v1) \<Rightarrow> validateRules E v1 rest)"

definition validateChildrenRules :: "Externals \<Rightarrow> BookValidator \<Rightarrow> node option \<Rightarrow> BookValidator outcome" where
  "validateChildrenRules E v parent =
     (case parent of None \<Rightarrow> Some (Inr v) | Some p \<Rightarrow> validateRules E v (children p))"

definition validateSectionInternal :: "Externals \<Rightarrow> BookValidator \<Rightarrow> string \<Rightarrow> BookValidator outcome" where
  "validateSectionInternal E v sid =
     (let v1 = v\<lparr>currentSection := new_Section (book v) sid (mechanics v)\<rparr>;
          sectionMechanics = getSection (mechanics v1) sid
      in validateChildrenRules E v1 sectionMechanics)"

definition validateSection :: "Externals \<Rightarrow> BookValidator \<Rightarrow> string \<Rightarrow> BookValidator outcome" where
  "validateSection E v sid = validateSectionInternal E (v\<lparr>errors := []\<rparr>) sid"

text \<open>
  The loop of \<open>validateBook\<close> over the sections. It may run forever: not returning is
  the value \<open>None\<close>.
\<close>

partial_function (option) traverseSections ::
  "Externals \<Rightarrow> string \<Rightarrow> BookValidator \<Rightarrow> string \<Rightarrow> BookValidator outcome" where
  "traverseSections E lastSectionId v currentSectionId =
     (if currentSectionId \<noteq> lastSectionId
      then (case validateSectionInternal E v currentSectionId of
              None \<Rightarrow> None
            | Some (Inl e) \<Rightarrow> Some (Inl e)
            | Some (Inr v1) \<Rightarrow>
                traverseSections E lastSectionId v1 (getNextSectionId E (currentSection v1)))
      else Some (Inr v))"

definition validateBook :: "Externals \<Rightarrow> BookValidator \<Rightarrow> BookValidator outcome" where
  "validateBook E v =
     (let v1 = validateXml E (v\<lparr>errors := []\<rparr>);
          lastSectionId = getLastSectionId (mechanics v1)
      in traverseSections E lastSectionId v1 (INITIAL_SECTION E))"

section \<open>Notions the properties are stated with\<close>

text \<open>
  \<open>map_outcome\<close> applies a function to what a call returns. \<open>appended v v'\<close> are the
  errors a step from \<open>v\<close> to \<open>v'\<close> has appended. \<open>blank v\<close> is \<open>v\<close> with no error and
  nothing printed, and \<open>shift v w\<close> is \<open>v\<close> with the errors and the prints of \<open>w\<close>
  appended.
\<close>

definition map_outcome :: "('a \<Rightarrow> 'b) \<Rightarrow> 'a outcome \<Rightarrow> 'b outcome" where
  "map_outcome f r = map_option (map_sum id f) r"

definition appended :: "BookValidator \<Rightarrow> BookValidator \<Rightarrow> string list" where
  "appended v v' = drop (length (errors v)) (errors v')"

definition blank :: "BookValidator \<Rightarrow> BookValidator" where
  "blank v = v\<lparr>errors := [], console := []\<rparr>"

definition shift :: "BookValidator \<Rightarrow> BookValidator \<Rightarrow> BookValidator" where
  "shift v w = v\<lparr>errors := errors v @ errors w, console := console v @ console w\<rparr>"


text \<open>
  The rule elements of a tree in document order, and those of a section. \<open>inSection v
  sid\<close> is the validator at the validation of section \<open>sid\<close>. \<open>ruleErrors E v r\<close> are the
  errors that the rule method of the element \<open>r\<close> reports in the state \<open>v\<close>, and
  \<open>sectionErrors E v sid\<close> the errors of the rule elements of the section, in document
  order.
\<close>

fun nodesOf :: "node \<Rightarrow> node list" where
  "nodesOf (Node name as cs) = Node name as cs # concat (map nodesOf cs)"

definition sectionNodes :: "Mechanics \<Rightarrow> string \<Rightarrow> node list" where
  "sectionNodes m sid =
     (case getSection m sid of None \<Rightarrow> [] | Some p \<Rightarrow> concat (map nodesOf (children p)))"

definition inSection :: "BookValidator \<Rightarrow> string \<Rightarrow> BookValidator" where
  "inSection v sid = v\<lparr>currentSection := new_Section (book v) sid (mechanics v)\<rparr>"

definition ruleErrors :: "Externals \<Rightarrow> BookValidator \<Rightarrow> node \<Rightarrow> string list" where
  "ruleErrors E v r =
     (case thisMember (nodeName r) of
        None \<Rightarrow> []
      | Some handler \<Rightarrow>
          (case handler E (v\<lparr>errors := []\<rparr>) r of Some (Inr w) \<Rightarrow> errors w | _ \<Rightarrow> []))"

definition sectionErrors :: "Externals \<Rightarrow> BookValidator \<Rightarrow> string \<Rightarrow> string list" where
  "sectionErrors E v sid =
     concat (map (ruleErrors E (inSection v sid)) (sectionNodes (mechanics v) sid))"









text \<open>
  The section that follows a section in the book, the first \<open>n\<close> sections on the chain
  of next-section links from a section, and the validation of a list of sections one
  after the other.
\<close>

definition nextSection :: "Externals \<Rightarrow> BookValidator \<Rightarrow> string \<Rightarrow> string" where
  "nextSection E v sid = getNextSectionId E (new_Section (book v) sid (mechanics v))"

fun sectionChain :: "(string \<Rightarrow> string) \<Rightarrow> string \<Rightarrow> nat \<Rightarrow> string list" where
  "sectionChain nxt sid 0 = []"
| "sectionChain nxt sid (Suc n) = sid # sectionChain nxt (nxt sid) n"

fun validateSections :: "Externals \<Rightarrow> string list \<Rightarrow> BookValidator \<Rightarrow> BookValidator outcome" where
  "validateSections E [] v = Some (Inr v)"
| "validateSections E (sid # rest) v =
     (case validateSectionInternal E v sid of
        None \<Rightarrow> None
      | Some (Inl e) \<Rightarrow> Some (Inl e)
      | Some (Inr v1) \<Rightarrow> validateSections E rest v1)"

text \<open>
  What the lookup of the link to the random table raises, if anything: the lookup is
  done when the rule has no \<open>text-en\<close> attribute, and raises what \<open>find\<close> raises.
\<close>

definition linkRaises :: "Externals \<Rightarrow> BookValidator \<Rightarrow> node \<Rightarrow> exn option" where
  "linkRaises E v rule =
     (if truthy (attr rule ''text-en'') then None
      else (case findRandomLink E v rule of Inl e \<Rightarrow> Some e | Inr random \<Rightarrow> None))"

text \<open>
  \<open>sameBook u v\<close>: the validators \<open>u\<close> and \<open>v\<close> hold the same mechanics, the same book and
  the same XSD; they may differ in the errors, the current section and the console.
\<close>

definition sameBook :: "BookValidator \<Rightarrow> BookValidator \<Rightarrow> bool" where
  "sameBook u v \<longleftrightarrow> mechanics u = mechanics v \<and> book u = book v \<and> xsdText u = xsdText v"


definition appendsTo :: "BookValidator \<Rightarrow> string list \<Rightarrow> BookValidator \<Rightarrow> bool" where
  "appendsTo v es w \<longleftrightarrow> (\<exists>k. w = v\<lparr>errors := errors v @ es, console := console v @ k\<rparr>)"

definition onlyAppends :: "(BookValidator \<Rightarrow> BookValidator outcome) \<Rightarrow> bool" where
  "onlyAppends f \<longleftrightarrow> (\<forall>v. f v = map_outcome (shift v) (f (blank v)))"

section \<open>An example book\<close>

text \<open>
  A book of three sections, \<open>tssf\<close>, \<open>sect1\<close> and \<open>sect2\<close>, in this order; \<open>sect2\<close> is
  the last section. Only \<open>sect1\<close> has rules, given as a parameter. The sections hold no
  link and no choice, the only object is \<open>sword\<close>, and the XSD is not downloaded. The
  bounds of a case are read from its attributes \<open>value\<close>, or \<open>from\<close> and \<open>to\<close>.
\<close>

definition exParseInt :: "string \<Rightarrow> number" where
  "exParseInt s =
     (case map_of [(''0'', 0), (''1'', 1), (''2'', 2), (''3'', 3), (''4'', 4), (''5'', 5),
                   (''6'', 6), (''7'', 7), (''8'', 8), (''9'', 9), (''10'', 10),
                   (''9007199254740992'', 9007199254740992)] s of
        Some n \<Rightarrow> Num n
      | None \<Rightarrow> NaN)"

definition exBounds :: "node \<Rightarrow> (number \<times> number) option" where
  "exBounds rule =
     (case attr rule ''value'' of
        Some t \<Rightarrow> Some (exParseInt t, exParseInt t)
      | None \<Rightarrow>
          (case attr rule ''from'' of
             Some f \<Rightarrow> Some (exParseInt f, (case attr rule ''to'' of Some t \<Rightarrow> exParseInt t | None \<Rightarrow> NaN))
           | None \<Rightarrow> None))"

definition exE :: Externals where
  "exE =
     \<lparr>INITIAL_SECTION = ''tssf'',
      getNextSectionId = (\<lambda>s. if sectionId s = ''tssf'' then ''sect1'' else ''sect2''),
      getArrayProperty = (\<lambda>rule p. case attr rule p of Some t \<Rightarrow> [t] | None \<Rightarrow> []),
      getCaseRuleBounds = exBounds,
      jq_find = (\<lambda>q sel. Inr []),
      serializeToString = (\<lambda>n. []),
      validateXML = (\<lambda>m. [])\<rparr>"

definition exBook :: Book where
  "exBook =
     \<lparr>bookNumber = 1,
      getSectionXml = (\<lambda>sid. if sid \<in> set [''tssf'', ''sect1'', ''sect2'']
                              then [Node ''section'' [(''id'', sid)] []] else []),
      getDisciplinesTable = (\<lambda>d. if d = ''camouflage'' then Some ''Camouflage'' else None)\<rparr>"

definition exMechanics :: "node list \<Rightarrow> Mechanics" where
  "exMechanics rules =
     \<lparr>getSection = (\<lambda>sid. if sid = ''sect1''
                           then Some (Node ''section'' [(''id'', ''sect1'')] rules) else None),
      getObject = (\<lambda>i. if i = ''sword'' then Some ''Sword'' else None),
      getLastSectionId = ''sect2'',
      mechanicsXmlText = None,
      mechanicsXml = Node ''mechanics'' [] []\<rparr>"

definition exValidator :: "node list \<Rightarrow> BookValidator" where
  "exValidator rules =
     \<lparr>mechanics = exMechanics rules,
      book = exBook,
      errors = [''stale''],
      currentSection = new_Section exBook ''tssf'' (exMechanics rules),
      xsdText = None,
      console = []\<rparr>"

definition exResult :: "node list \<Rightarrow> string list \<Rightarrow> BookValidator" where
  "exResult rules es =
     (exValidator rules)\<lparr>errors := es,
        currentSection := new_Section exBook ''sect1'' (exMechanics rules)\<rparr>"

definition exPickUnknown :: node where
  "exPickUnknown = Node ''pick'' [(''objectId'', ''axe'')] []"

definition exPickSword :: node where
  "exPickSword = Node ''pick'' [(''objectId'', ''sword'')] []"

definition exTable :: node where
  "exTable = Node ''randomTable'' []
     [Node ''case'' [(''from'', ''0''), (''to'', ''4'')] [],
      Node ''case'' [(''from'', ''3''), (''to'', ''8'')] []]"

definition exTableNoCases :: node where
  "exTableNoCases = Node ''randomTable'' [(''zeroAsTen'', ''true'')] [Node ''toast'' [] []]"

definition exTableNoLink :: node where
  "exTableNoLink = Node ''randomTable'' [] []"

definition exPickEmpty :: node where
  "exPickEmpty = Node ''pick'' [(''objectId'', [])] []"

definition exTableHuge :: node where
  "exTableHuge = Node ''randomTable'' []
     [Node ''case'' [(''value'', ''9007199254740992'')] []]"

definition exTableHugeTwice :: node where
  "exTableHugeTwice = Node ''randomTable'' []
     [Node ''case'' [(''value'', ''9007199254740992'')] [],
      Node ''case'' [(''value'', ''9007199254740992'')] []]"

definition exXmlRule :: node where
  "exXmlRule = Node ''validateXml'' [] []"

section \<open>The coverage of a random table\<close>




lemma coverNumbers_stuck:
  "js_inc i = i \<Longrightarrow> i \<le> b \<Longrightarrow> coverNumbers (Num i) (Num b) s = None"
proof (rule ccontr)
  assume stuck: "js_inc i = i" and le: "i \<le> b"
  assume "coverNumbers (Num i) (Num b) s \<noteq> None"
  then obtain r where r: "coverNumbers (Num i) (Num b) s = Some r" by blast
  have "x = Num i \<longrightarrow> hi = Num b \<longrightarrow> False"
    if "coverNumbers x hi s = Some r" for x hi s r
    using that
  proof (rule coverNumbers.raw_induct [where P = "\<lambda>x hi s r. x = Num i \<longrightarrow> hi = Num b \<longrightarrow> False", rotated])
    fix f x hi s r
    assume IH: "\<And>x hi s r. f x hi s = Some r \<Longrightarrow> x = Num i \<longrightarrow> hi = Num b \<longrightarrow> False"
      and body: "(if num_le x hi then f (num_inc x) hi (coverNumber x s) else Some s) = Some r"
    show "x = Num i \<longrightarrow> hi = Num b \<longrightarrow> False"
    proof (intro impI)
      assume x: "x = Num i" and hi: "hi = Num b"
      with body le stuck have "f (Num i) (Num b) (coverNumber (Num i) s) = Some r" by simp
      from IH [OF this] show False by simp
    qed
  qed
  from this [OF r] show False by simp
qed




lemma Num_inter: "Num ` A \<inter> Num ` B \<noteq> {} \<longleftrightarrow> A \<inter> B \<noteq> {}"
  by auto





lemma coverChildren_no_case:
  "\<forall>c \<in> set cs. nodeName c \<noteq> ''case'' \<Longrightarrow> coverChildren E cs s = Some s"
  by (induction cs arbitrary: s) (auto simp: coverChild_def split: prod.splits)


text \<open>What the check of the link leaves: it raises what \<open>find\<close> raises, and appends nothing.\<close>

lemma randomTable_link:
  "(if \<not> truthy (attr rule ''text-en'') then
      (case findRandomLink E v rule of
         Inl e \<Rightarrow> Inl e
       | Inr random \<Rightarrow>
           if \<not> jq_truthy random
           then Inr (addError v rule ''Link to random table not found'')
           else Inr v)
    else Inr v) =
   (if truthy (attr rule ''text-en'') then Inr v
    else (case findRandomLink E v rule of Inl e \<Rightarrow> Inl e | Inr random \<Rightarrow> Inr v))"
  by (simp add: jq_truthy_def split: sum.splits)

lemma randomTable_raises:
  "linkRaises E v rule = Some e \<Longrightarrow> randomTable E v rule = Some (Inl e)"
  unfolding randomTable_def randomTable_link linkRaises_def
  by (auto split: if_splits sum.splits)


section \<open>Rule validation only appends formatted errors\<close>















section \<open>Rule validation reads neither the errors nor the console\<close>

lemma blank_simps:
  "mechanics (blank v) = mechanics v" "book (blank v) = book v"
  "currentSection (blank v) = currentSection v" "xsdText (blank v) = xsdText v"
  "errors (blank v) = []" "console (blank v) = []"
  by (simp_all add: blank_def)

lemma shift_simps:
  "mechanics (shift v w) = mechanics v" "book (shift v w) = book v"
  "currentSection (shift v w) = currentSection v" "xsdText (shift v w) = xsdText v"
  "errors (shift v w) = errors v @ errors w" "console (shift v w) = console v @ console w"
  by (simp_all add: shift_def)

lemma blank_blank: "blank (blank v) = blank v"
  by (simp add: blank_def)

lemma blank_shift: "blank (shift v w) = blank v"
  by (simp add: blank_def shift_def)

lemma shift_assoc: "shift (shift v w) u = shift v (shift w u)"
  by (simp add: shift_def)

lemma shift_blank: "shift v (blank w) = v"
  by (simp add: shift_def blank_def)

lemma onlyAppends_blank:
  assumes "onlyAppends f" "f (blank v) = Some (Inr w)"
  shows "blank w = blank v"
proof -
  from assms(1) have "f (blank v) = map_outcome (shift (blank v)) (f (blank (blank v)))"
    unfolding onlyAppends_def by blast
  then have "f (blank v) = map_outcome (shift (blank v)) (f (blank v))"
    by (simp only: blank_blank)
  then have "Some (Inr w) = map_outcome (shift (blank v)) (Some (Inr w))"
    by (simp only: assms(2))
  then have "w = shift (blank v) w"
    by (simp add: map_outcome_def)
  then have "blank w = blank (shift (blank v) w)" by simp
  then show ?thesis by (simp only: blank_shift blank_blank)
qed

lemma onlyAppends_seq:
  assumes f: "onlyAppends f" and g: "onlyAppends g"
  shows "onlyAppends (\<lambda>v. case f v of None \<Rightarrow> None | Some (Inl e) \<Rightarrow> Some (Inl e) | Some (Inr w) \<Rightarrow> g w)"
  unfolding onlyAppends_def
proof
  fix v
  have fv: "f v = map_outcome (shift v) (f (blank v))"
    using f unfolding onlyAppends_def by blast
  show "(case f v of None \<Rightarrow> None | Some (Inl e) \<Rightarrow> Some (Inl e) | Some (Inr w) \<Rightarrow> g w) =
      map_outcome (shift v)
        (case f (blank v) of None \<Rightarrow> None | Some (Inl e) \<Rightarrow> Some (Inl e) | Some (Inr w) \<Rightarrow> g w)"
  proof (cases "f (blank v)")
    case None
    with fv show ?thesis by (simp add: map_outcome_def)
  next
    case (Some r)
    show ?thesis
    proof (cases r)
      case (Inl e)
      with Some fv show ?thesis by (simp add: map_outcome_def)
    next
      case (Inr w)
      with Some have fb: "f (blank v) = Some (Inr w)" by simp
      from onlyAppends_blank [OF f fb] have bw: "blank w = blank v" .
      have gw: "g w = map_outcome (shift w) (g (blank v))"
        using g bw unfolding onlyAppends_def by metis
      have gs: "g (shift v w) = map_outcome (shift (shift v w)) (g (blank v))"
        using g blank_shift [of v w] unfolding onlyAppends_def by metis
      have fvw: "f v = Some (Inr (shift v w))" using fv fb by (simp add: map_outcome_def)
      have "g (shift v w) = map_outcome (shift v) (g w)"
      proof (cases "g (blank v)")
        case None
        then show ?thesis unfolding gs gw by (simp add: map_outcome_def)
      next
        case (Some r)
        then show ?thesis unfolding gs gw
          by (cases r) (simp_all add: map_outcome_def shift_assoc)
      qed
      then show ?thesis by (simp add: fvw fb)
    qed
  qed
qed

lemma onlyAppends_after:
  assumes g: "onlyAppends (\<lambda>v. Some (Inr (g v)))" and f: "onlyAppends f"
  shows "onlyAppends (\<lambda>v. f (g v))"
  using onlyAppends_seq [OF g f] by simp

lemma onlyAppends_id: "onlyAppends (\<lambda>v. Some (Inr v))"
  by (simp add: onlyAppends_def map_outcome_def shift_blank)

lemma onlyAppends_total:
  "onlyAppends (\<lambda>v. Some (Inr (f v))) \<longleftrightarrow> (\<forall>v. f v = shift v (f (blank v)))"
  by (simp add: onlyAppends_def map_outcome_def)

lemma onlyAppends_fold:
  assumes "\<And>x. onlyAppends (\<lambda>v. Some (Inr (f x v)))"
  shows "onlyAppends (\<lambda>v. Some (Inr (fold f xs v)))"
proof (induction xs)
  case Nil
  show ?case by (simp add: onlyAppends_id)
next
  case (Cons x xs)
  from onlyAppends_after [OF assms [of x] Cons.IH] show ?case by simp
qed

lemma onlyAppends_validateObjectIdsAttribute:
  "onlyAppends (\<lambda>v. Some (Inr (fst (validateObjectIdsAttribute E v rule p am))))"
proof (cases "getPropertyValueAsArray E rule p am = []")
  case True
  then show ?thesis
    unfolding validateObjectIdsAttribute_def Let_def by (simp add: onlyAppends_id)
next
  case False
  have step: "onlyAppends (\<lambda>w. Some (Inr (if getObject (mechanics w) i = None
      then addError w rule (''Object id '' @ i @ '' not found'') else w)))" for i
    by (simp add: onlyAppends_total shift_def blank_def addError_def)
  have "onlyAppends (\<lambda>v. Some (Inr (fold (\<lambda>objectId w. if getObject (mechanics w) objectId = None
        then addError w rule (''Object id '' @ objectId @ '' not found'') else w)
        (getPropertyValueAsArray E rule p am) v)))"
    by (rule onlyAppends_fold) (rule step)
  with False show ?thesis
    unfolding validateObjectIdsAttribute_def Let_def by simp
qed

lemma snd_validateObjectIdsAttribute:
  "snd (validateObjectIdsAttribute E v rule p am) = (getPropertyValueAsArray E rule p am \<noteq> [])"
  by (simp add: validateObjectIdsAttribute_def Let_def)

lemma onlyAppends_step:
  "onlyAppends (\<lambda>w. Some (Inr (if c then addError w rule m else w)))"
  by (simp add: onlyAppends_total shift_def blank_def addError_def)

lemma onlyAppends_validateDisciplinesAttribute:
  "onlyAppends (\<lambda>v. Some (Inr (validateDisciplinesAttribute E v rule p am)))"
  unfolding onlyAppends_total
proof
  fix v :: BookValidator
  define xs where "xs = getPropertyValueAsArray E rule p am"
  define t where "t = getDisciplinesTable (book v)"
  define step where "step = (\<lambda>disciplineId w. if t disciplineId = None
      then addError w rule (''Wrong discipline id: '' @ disciplineId) else w)"
  have L: "validateDisciplinesAttribute E v rule p am = (if xs = [] then v else fold step xs v)"
    by (simp add: validateDisciplinesAttribute_def Let_def xs_def t_def step_def)
  have R: "validateDisciplinesAttribute E (blank v) rule p am =
      (if xs = [] then blank v else fold step xs (blank v))"
    by (simp add: validateDisciplinesAttribute_def Let_def xs_def t_def step_def blank_simps)
  have "onlyAppends (\<lambda>w. Some (Inr (fold step xs w)))"
    by (rule onlyAppends_fold) (simp add: step_def onlyAppends_step)
  then have F: "fold step xs v = shift v (fold step xs (blank v))"
    unfolding onlyAppends_total by blast
  show "validateDisciplinesAttribute E v rule p am =
      shift v (validateDisciplinesAttribute E (blank v) rule p am)"
  proof (cases "xs = []")
    case True
    then show ?thesis by (simp add: L R shift_blank)
  next
    case False
    have "fold step xs v = shift v (fold step xs (blank v))" by (rule F)
    with False show ?thesis by (simp only: L R if_False)
  qed
qed

lemma onlyAppends_validateSectionsAttribute:
  "onlyAppends (\<lambda>v. Some (Inr (validateSectionsAttribute E v rule p am)))"
proof -
  have step: "onlyAppends (\<lambda>w. Some (Inr (if length (getSectionXml (book w) i) = 0
      then addError w rule (''Section does not exists: '' @ i) else w)))" for i
    by (simp add: onlyAppends_total shift_def blank_def addError_def)
  show ?thesis
    unfolding validateSectionsAttribute_def Let_def
    by (rule onlyAppends_fold) (rule step)
qed

lemma onlyAppends_validateSectionChoiceAttribute:
  "onlyAppends (\<lambda>v. Some (validateSectionChoiceAttribute E v rule p))"
  by (simp add: onlyAppends_def map_outcome_def validateSectionChoiceAttribute_def shift_def
      blank_def addError_def split: option.splits sum.splits)

lemma onlyAppends_pick: "onlyAppends (\<lambda>v. Some (Inr (pick E v rule)))"
proof -
  define s2 where "s2 = (\<lambda>w. if \<not> ((getPropertyValueAsArray E rule ''objectId'' False \<noteq> [] \<and> \<not> truthy (attr rule ''class'')) \<or>
                    (\<not> getPropertyValueAsArray E rule ''objectId'' False \<noteq> [] \<and> truthy (attr rule ''class'')))
             then addError w rule
                    (''Must to have a '' @ dq ''objectId'' @ '' or '' @ dq ''class'' @ '' attribute, and only one'')
             else w)"
  define s3 where "s3 = (\<lambda>w. if truthy (attr rule ''class'') \<and> \<not> truthy (attr rule ''count'')
            then addError w rule (''Must to have a '' @ dq ''count'' @ '' attribute'') else w)"
  define s1 where "s1 = (\<lambda>v. fst (validateObjectIdsAttribute E v rule ''objectId'' False))"
  have P: "pick E v rule = s3 (s2 (s1 v))" for v
    unfolding pick_def Let_def validateNumericExpression_def s1_def s2_def s3_def
    by (simp add: case_prod_beta snd_validateObjectIdsAttribute)
  have 1: "onlyAppends (\<lambda>v. Some (Inr (s1 v)))"
    unfolding s1_def by (rule onlyAppends_validateObjectIdsAttribute)
  have 2: "onlyAppends (\<lambda>v. Some (Inr (s2 v)))"
    unfolding s2_def by (rule onlyAppends_step)
  have 3: "onlyAppends (\<lambda>v. Some (Inr (s3 v)))"
    unfolding s3_def by (rule onlyAppends_step)
  have "onlyAppends (\<lambda>v. Some (Inr (s2 (s1 v))))"
    by (rule onlyAppends_after [where g = s1 and f = "\<lambda>v. Some (Inr (s2 v))", OF 1 2])
  then have "onlyAppends (\<lambda>v. Some (Inr (s3 (s2 (s1 v)))))"
    by (rule onlyAppends_after [where g = "\<lambda>v. s2 (s1 v)" and f = "\<lambda>v. Some (Inr (s3 v))", OF _ 3])
  then show ?thesis unfolding P .
qed

lemma onlyAppends_caseRule: "onlyAppends (\<lambda>v. Some (Inr (caseRule E v rule)))"
  by (simp add: onlyAppends_total caseRule_def shift_def blank_def addError_def
      split: option.splits prod.splits)

lemma findRandomLink_blank: "findRandomLink E (blank v) rule = findRandomLink E v rule"
  by (simp add: findRandomLink_def blank_simps)

lemma onlyAppends_randomTable: "onlyAppends (\<lambda>v. randomTable E v rule)"
  unfolding onlyAppends_def randomTable_def randomTable_link findRandomLink_blank Let_def
  by (simp add: map_outcome_def shift_def blank_def addError_def
      split: sum.splits option.splits prod.splits)

lemma onlyAppends_test: "onlyAppends (\<lambda>v. Some (test E v rule))"
proof -
  define s1 where "s1 = (\<lambda>v. validateDisciplinesAttribute E v rule ''hasDiscipline'' True)"
  define s2 where "s2 = (\<lambda>v. fst (validateObjectIdsAttribute E v rule ''hasObject'' True))"
  define s4 where "s4 = (\<lambda>v. validateSectionsAttribute E v rule ''sectionVisited'' True)"
  define s5 where "s5 = (\<lambda>v. fst (validateObjectIdsAttribute E v rule ''currentWeapon'' False))"
  define s6 where "s6 = (\<lambda>v. if (\<exists>language. attr rule ''bookLanguage'' = Some language \<and>
        language \<noteq> [] \<and> language \<noteq> ''en'' \<and> language \<noteq> ''es'')
      then addError v rule (''Wrong language: '' @ (case attr rule ''bookLanguage'' of Some l \<Rightarrow> l | None \<Rightarrow> []))
      else v)"
  define s7 where "s7 = (\<lambda>v. Some (validateSectionChoiceAttribute E v rule ''isChoiceEnabled''))"
  have P: "Some (test E v rule) = s7 (s6 (s5 (s4 (s2 (s1 v)))))" for v
    unfolding test_def Let_def validateBooleanExpression_def s1_def s2_def s4_def s5_def s6_def s7_def
    by (simp split: option.splits)
  have 1: "onlyAppends (\<lambda>v. Some (Inr (s1 v)))"
    unfolding s1_def by (rule onlyAppends_validateDisciplinesAttribute)
  have 2: "onlyAppends (\<lambda>v. Some (Inr (s2 v)))"
    unfolding s2_def by (rule onlyAppends_validateObjectIdsAttribute)
  have 4: "onlyAppends (\<lambda>v. Some (Inr (s4 v)))"
    unfolding s4_def by (rule onlyAppends_validateSectionsAttribute)
  have 5: "onlyAppends (\<lambda>v. Some (Inr (s5 v)))"
    unfolding s5_def by (rule onlyAppends_validateObjectIdsAttribute)
  have 6: "onlyAppends (\<lambda>v. Some (Inr (s6 v)))"
    unfolding s6_def by (rule onlyAppends_step)
  have 7: "onlyAppends s7"
    unfolding s7_def by (rule onlyAppends_validateSectionChoiceAttribute)
  have a: "onlyAppends (\<lambda>v. s7 (s6 v))"
    by (rule onlyAppends_after [where g = s6 and f = s7, OF 6 7])
  have b: "onlyAppends (\<lambda>v. s7 (s6 (s5 v)))"
    by (rule onlyAppends_after [where g = s5 and f = "\<lambda>v. s7 (s6 v)", OF 5 a])
  have c: "onlyAppends (\<lambda>v. s7 (s6 (s5 (s4 v))))"
    by (rule onlyAppends_after [where g = s4 and f = "\<lambda>v. s7 (s6 (s5 v))", OF 4 b])
  have d: "onlyAppends (\<lambda>v. s7 (s6 (s5 (s4 (s2 v)))))"
    by (rule onlyAppends_after [where g = s2 and f = "\<lambda>v. s7 (s6 (s5 (s4 v)))", OF 2 c])
  have "onlyAppends (\<lambda>v. s7 (s6 (s5 (s4 (s2 (s1 v))))))"
    by (rule onlyAppends_after [where g = s1 and f = "\<lambda>v. s7 (s6 (s5 (s4 (s2 v))))", OF 1 d])
  then show ?thesis unfolding P .
qed

lemma onlyAppends_raise: "onlyAppends (\<lambda>v. Some (Inl e))"
  by (simp add: onlyAppends_def map_outcome_def)

lemma onlyAppends_validateXml: "onlyAppends (\<lambda>v. Some (Inr (validateXml E v)))"
  unfolding onlyAppends_total
proof
  fix v :: BookValidator
  show "validateXml E v = shift v (validateXml E (blank v))"
    by (rule BookValidator.equality) (simp_all add: validateXml_def Let_def shift_def blank_def)
qed

lemma onlyAppends_addError: "onlyAppends (\<lambda>v. Some (Inr (addError v rule m)))"
  by (simp add: onlyAppends_total shift_def blank_def addError_def)

lemma onlyAppends_member:
  "thisMember name = Some handler \<Longrightarrow> onlyAppends (\<lambda>v. handler E v rule)"
  unfolding thisMember_def
  by (auto split: if_splits
      simp: onlyAppends_pick onlyAppends_randomTable onlyAppends_caseRule onlyAppends_test
        onlyAppends_raise onlyAppends_validateXml onlyAppends_addError onlyAppends_id)

lemma onlyAppends_validateRules:
  "(\<And>r. r \<in> set rs \<Longrightarrow> onlyAppends (\<lambda>v. validateRule E v r)) \<Longrightarrow>
     onlyAppends (\<lambda>v. validateRules E v rs)"
proof (induction rs)
  case Nil
  show ?case by (simp add: onlyAppends_id)
next
  case (Cons r rs)
  have 1: "onlyAppends (\<lambda>v. validateRule E v r)" by (rule Cons.prems) simp
  have 2: "onlyAppends (\<lambda>v. validateRules E v rs)" by (rule Cons.IH) (simp add: Cons.prems)
  from onlyAppends_seq [OF 1 2] show ?case by simp
qed

lemma onlyAppends_validateRule: "onlyAppends (\<lambda>v. validateRule E v r)"
proof (induction r)
  case (Node name as cs)
  define call where "call = (\<lambda>v. case thisMember name of
      Some handler \<Rightarrow> handler E v (Node name as cs) | None \<Rightarrow> Some (Inr v))"
  have c: "onlyAppends call"
    unfolding call_def
    by (cases "thisMember name") (simp_all add: onlyAppends_id onlyAppends_member)
  have r: "onlyAppends (\<lambda>v. validateRules E v cs)"
    by (rule onlyAppends_validateRules) (rule Node)
  have "validateRule E v (Node name as cs) =
      (case call v of None \<Rightarrow> None | Some (Inl e) \<Rightarrow> Some (Inl e) | Some (Inr w) \<Rightarrow> validateRules E w cs)" for v
    by (simp add: call_def)
  then show ?case
    using onlyAppends_seq [OF c r] by simp
qed

section \<open>The errors of a rule tree\<close>

lemma blank_errors_update: "blank (v\<lparr>errors := es\<rparr>) = blank v"
  by (simp add: blank_def)

lemma member_blank:
  assumes "thisMember (nodeName r) = Some handler"
  shows "handler E v r = map_outcome (shift v) (handler E (blank v) r)"
  using onlyAppends_member [OF assms, of E r] unfolding onlyAppends_def by blast

lemma ruleErrors_blank:
  "ruleErrors E v r =
     (case thisMember (nodeName r) of
        None \<Rightarrow> []
      | Some handler \<Rightarrow> (case handler E (blank v) r of Some (Inr w) \<Rightarrow> errors w | _ \<Rightarrow> []))"
proof (cases "thisMember (nodeName r)")
  case None
  then show ?thesis by (simp add: ruleErrors_def)
next
  case (Some handler)
  have "handler E (v\<lparr>errors := []\<rparr>) r =
      map_outcome (shift (v\<lparr>errors := []\<rparr>)) (handler E (blank v) r)"
    using member_blank [OF Some, of E "v\<lparr>errors := []\<rparr>"] by (simp only: blank_errors_update)
  then show ?thesis
    unfolding ruleErrors_def Some
    by (cases "handler E (blank v) r") (auto simp: map_outcome_def shift_def split: sum.splits)
qed

lemma ruleErrors_cong:
  assumes "blank u = blank v"
  shows "ruleErrors E u r = ruleErrors E v r"
  unfolding ruleErrors_blank assms ..

lemma appendsTo_blank: "appendsTo v es w \<Longrightarrow> blank w = blank v"
  by (auto simp: appendsTo_def blank_def)

lemma appendsTo_refl: "appendsTo v [] v"
  unfolding appendsTo_def by (rule exI [of _ "[]"]) simp

lemma appendsTo_trans:
  "appendsTo v a v1 \<Longrightarrow> appendsTo v1 b v2 \<Longrightarrow> appendsTo v (a @ b) v2"
proof -
  assume "appendsTo v a v1" "appendsTo v1 b v2"
  then obtain k l where 1: "v1 = v\<lparr>errors := errors v @ a, console := console v @ k\<rparr>"
    and 2: "v2 = v1\<lparr>errors := errors v1 @ b, console := console v1 @ l\<rparr>"
    unfolding appendsTo_def by blast
  have "v2 = v\<lparr>errors := errors v @ (a @ b), console := console v @ (k @ l)\<rparr>"
    unfolding 2 1 by simp
  then show ?thesis unfolding appendsTo_def by blast
qed

lemma appendsTo_shift: "appendsTo v (errors w) (shift v w)"
  unfolding appendsTo_def shift_def by blast

lemma member_result:
  assumes m: "thisMember (nodeName r) = Some handler" and run: "handler E v r = Some (Inr w)"
  shows "appendsTo v (ruleErrors E v r) w"
proof -
  have mb: "handler E v r = map_outcome (shift v) (handler E (blank v) r)"
    by (rule member_blank [OF m])
  show ?thesis
  proof (cases "handler E (blank v) r")
    case None
    with mb run show ?thesis by (simp add: map_outcome_def)
  next
    case (Some a)
    show ?thesis
    proof (cases a)
      case (Inl e)
      with Some mb run show ?thesis by (simp add: map_outcome_def)
    next
      case (Inr w0)
      with Some mb run have w: "w = shift v w0" by (simp add: map_outcome_def)
      have "ruleErrors E v r = errors w0"
        by (simp add: ruleErrors_blank m Some Inr)
      then show ?thesis unfolding w by (simp only: appendsTo_shift)
    qed
  qed
qed


lemma validateRules_errors_aux:
  assumes each: "\<And>r v v'. r \<in> set rs \<Longrightarrow> validateRule E v r = Some (Inr v') \<Longrightarrow>
      appendsTo v (concat (map (ruleErrors E v) (nodesOf r))) v'"
  shows "validateRules E v rs = Some (Inr v') \<Longrightarrow>
      appendsTo v (concat (map (ruleErrors E v) (concat (map nodesOf rs)))) v'"
  using each
proof (induction rs arbitrary: v)
  case Nil
  then show ?case by (simp add: appendsTo_refl)
next
  case (Cons r rs)
  from Cons.prems(1) obtain v1 where 1: "validateRule E v r = Some (Inr v1)"
    and 2: "validateRules E v1 rs = Some (Inr v')"
    by (auto split: option.splits sum.splits)
  have e1: "appendsTo v (concat (map (ruleErrors E v) (nodesOf r))) v1"
    by (rule Cons.prems(2) [OF _ 1]) simp
  have e2: "appendsTo v1 (concat (map (ruleErrors E v1) (concat (map nodesOf rs)))) v'"
    by (rule Cons.IH [OF 2]) (rule Cons.prems(2), simp_all)
  have "blank v1 = blank v" by (rule appendsTo_blank [OF e1])
  then have "ruleErrors E v1 = ruleErrors E v" by (intro ext ruleErrors_cong)
  with appendsTo_trans [OF e1 e2] show ?case by simp
qed

lemma validateRule_errors:
  "validateRule E v r = Some (Inr v') \<Longrightarrow>
     appendsTo v (concat (map (ruleErrors E v) (nodesOf r))) v'"
proof (induction r arbitrary: v v')
  case (Node name as cs)
  let ?r = "Node name as cs"
  have rest: "validateRules E u cs = Some (Inr u') \<Longrightarrow>
      appendsTo u (concat (map (ruleErrors E u) (concat (map nodesOf cs)))) u'" for u u'
    by (rule validateRules_errors_aux) (rule Node.IH)
  show ?case
  proof (cases "thisMember name")
    case None
    with Node.prems have "validateRules E v cs = Some (Inr v')" by simp
    moreover from None have "ruleErrors E v ?r = []" by (simp add: ruleErrors_def)
    ultimately show ?thesis using rest by simp
  next
    case (Some handler)
    with Node.prems obtain v1 where 1: "handler E v ?r = Some (Inr v1)"
      and 2: "validateRules E v1 cs = Some (Inr v')"
      by (auto split: option.splits sum.splits)
    from Some have m: "thisMember (nodeName ?r) = Some handler" by simp
    have e1: "appendsTo v (ruleErrors E v ?r) v1"
      by (rule member_result [OF m 1])
    have "blank v1 = blank v" by (rule appendsTo_blank [OF e1])
    then have "ruleErrors E v1 = ruleErrors E v" by (intro ext ruleErrors_cong)
    with appendsTo_trans [OF e1 rest [OF 2]] show ?thesis by simp
  qed
qed

lemma validateRules_errors:
  "validateRules E v rs = Some (Inr v') \<Longrightarrow>
     appendsTo v (concat (map (ruleErrors E v) (concat (map nodesOf rs)))) v'"
  by (rule validateRules_errors_aux) (rule validateRule_errors)

section \<open>The validation of a section\<close>

lemma sameBook_refl: "sameBook v v"
  by (simp add: sameBook_def)

lemma sameBook_sym: "sameBook u v \<Longrightarrow> sameBook v u"
  by (simp add: sameBook_def)

lemma sameBook_trans: "sameBook u v \<Longrightarrow> sameBook v w \<Longrightarrow> sameBook u w"
  by (simp add: sameBook_def)

lemma sameBook_blank: "sameBook (blank v) v"
  by (simp add: sameBook_def blank_def)

lemma blank_inSection: "sameBook u v \<Longrightarrow> blank (inSection u sid) = inSection (blank v) sid"
  unfolding sameBook_def blank_def inSection_def
  by (intro BookValidator.equality) simp_all

lemma sectionErrors_cong: "sameBook u v \<Longrightarrow> sectionErrors E u sid = sectionErrors E v sid"
proof -
  assume s: "sameBook u v"
  have a: "blank (inSection u sid) = inSection (blank v) sid"
    by (rule blank_inSection [OF s])
  have b: "blank (inSection v sid) = inSection (blank v) sid"
    by (rule blank_inSection [OF sameBook_refl])
  have "blank (inSection u sid) = blank (inSection v sid)"
    by (simp only: a b)
  then have "ruleErrors E (inSection u sid) = ruleErrors E (inSection v sid)"
    by (intro ext ruleErrors_cong)
  with s show ?thesis by (simp add: sectionErrors_def sameBook_def)
qed

lemma validateSectionInternal_blank:
  assumes "sameBook u v"
  shows "validateSectionInternal E u sid =
     map_outcome (shift (inSection u sid)) (validateSectionInternal E (blank v) sid)"
proof -
  define F where "F = (\<lambda>x. validateChildrenRules E x (getSection (mechanics v) sid))"
  have F: "onlyAppends F"
    unfolding F_def validateChildrenRules_def
    by (cases "getSection (mechanics v) sid")
       (simp_all add: onlyAppends_id onlyAppends_validateRules onlyAppends_validateRule)
  have u: "validateSectionInternal E u sid = F (inSection u sid)"
    using assms by (simp add: validateSectionInternal_def F_def inSection_def sameBook_def)
  have b: "validateSectionInternal E (blank v) sid = F (inSection (blank v) sid)"
    by (simp add: validateSectionInternal_def F_def inSection_def blank_simps)
  have "F (inSection u sid) = map_outcome (shift (inSection u sid)) (F (blank (inSection u sid)))"
    using F unfolding onlyAppends_def by blast
  then show ?thesis
    unfolding u b blank_inSection [OF assms] .
qed

lemma validateSectionInternal_result:
  assumes "validateSectionInternal E v sid = Some (Inr w)"
  shows "appendsTo (inSection v sid) (sectionErrors E v sid) w"
proof (cases "getSection (mechanics v) sid")
  case None
  with assms have w: "w = inSection v sid"
    by (simp add: validateSectionInternal_def validateChildrenRules_def inSection_def)
  from None have se: "sectionErrors E v sid = []"
    by (simp add: sectionErrors_def sectionNodes_def)
  show ?thesis
    unfolding w se by (rule appendsTo_refl)
next
  case (Some p)
  with assms have "validateRules E (inSection v sid) (children p) = Some (Inr w)"
    by (simp add: validateSectionInternal_def validateChildrenRules_def inSection_def)
  from validateRules_errors [OF this] Some show ?thesis
    by (simp add: sectionErrors_def sectionNodes_def)
qed

lemma validateSectionInternal_frame:
  assumes "validateSectionInternal E v sid = Some (Inr w)"
  shows "sameBook w v" "\<exists>k. console w = console v @ k"
    "currentSection w = new_Section (book v) sid (mechanics v)"
    "errors w = errors v @ sectionErrors E v sid"
  using validateSectionInternal_result [OF assms]
  by (auto simp: appendsTo_def sameBook_def inSection_def)

lemma validateSectionInternal_agree:
  assumes s: "sameBook u v" and run: "validateSectionInternal E u sid = Some r"
  shows "\<exists>r'. validateSectionInternal E v sid = Some r' \<and>
     (case r of
        Inl e \<Rightarrow> r' = Inl e
      | Inr w \<Rightarrow> \<exists>w'. r' = Inr w' \<and> appended u w = appended v w' \<and> sameBook w w' \<and>
          currentSection w = currentSection w')"
proof -
  let ?c = "validateSectionInternal E (blank v) sid"
  have u: "validateSectionInternal E u sid = map_outcome (shift (inSection u sid)) ?c"
    by (rule validateSectionInternal_blank [OF s])
  have v: "validateSectionInternal E v sid = map_outcome (shift (inSection v sid)) ?c"
    by (rule validateSectionInternal_blank [OF sameBook_refl])
  from run u obtain c where c: "?c = Some c" "r = map_sum id (shift (inSection u sid)) c"
    by (cases ?c) (auto simp: map_outcome_def)
  show ?thesis
  proof (cases c)
    case (Inl e)
    with c v show ?thesis by (simp add: map_outcome_def)
  next
    case (Inr w0)
    with c v s show ?thesis
      by (simp add: map_outcome_def shift_def inSection_def appended_def sameBook_def)
  qed
qed

section \<open>The walk over the sections\<close>

lemma nextSection_cong: "sameBook u v \<Longrightarrow> nextSection E u = nextSection E v"
  by (rule ext) (simp add: nextSection_def sameBook_def)

lemma sectionChain_first:
  "(nxt ^^ n) sid = l \<Longrightarrow> \<exists>m \<le> n. (nxt ^^ m) sid = l \<and> l \<notin> set (sectionChain nxt sid m)"
proof (induction n arbitrary: sid)
  case 0
  then show ?case by (intro exI [of _ 0]) simp
next
  case (Suc n)
  show ?case
  proof (cases "sid = l")
    case True
    then show ?thesis by (intro exI [of _ 0]) simp
  next
    case False
    from Suc.prems have "(nxt ^^ n) (nxt sid) = l" by (simp add: funpow_swap1)
    from Suc.IH [OF this] obtain m where
      m: "m \<le> n" "(nxt ^^ m) (nxt sid) = l" "l \<notin> set (sectionChain nxt (nxt sid) m)" by blast
    with False show ?thesis by (intro exI [of _ "Suc m"]) (simp add: funpow_swap1)
  qed
qed

lemma validateSections_result:
  "validateSections E ids v = Some (Inr w) \<Longrightarrow>
     sameBook w v \<and> errors w = errors v @ concat (map (sectionErrors E v) ids)"
proof (induction ids arbitrary: v)
  case Nil
  then show ?case by (simp add: sameBook_refl)
next
  case (Cons sid ids)
  from Cons.prems obtain v1 where 1: "validateSectionInternal E v sid = Some (Inr v1)"
    and 2: "validateSections E ids v1 = Some (Inr w)"
    by (auto split: option.splits sum.splits)
  note f = validateSectionInternal_frame [OF 1]
  from Cons.IH [OF 2] have r: "sameBook w v1"
    "errors w = errors v1 @ concat (map (sectionErrors E v1) ids)" by simp_all
  have "sectionErrors E v1 = sectionErrors E v"
    by (intro ext sectionErrors_cong f(1))
  with r f(1) f(4) show ?case by (simp add: sameBook_def)
qed

lemma sectionChain_mem:
  "s \<in> set (sectionChain nxt sid n) \<Longrightarrow> \<exists>k < n. s = (nxt ^^ k) sid"
proof (induction n arbitrary: sid)
  case 0
  then show ?case by simp
next
  case (Suc n)
  show ?case
  proof (cases "s = sid")
    case True
    then show ?thesis by (intro exI [of _ 0]) simp
  next
    case False
    with Suc.prems have "s \<in> set (sectionChain nxt (nxt sid) n)" by simp
    from Suc.IH [OF this] obtain k where "k < n" "s = (nxt ^^ k) (nxt sid)" by blast
    then show ?thesis by (intro exI [of _ "Suc k"]) (simp add: funpow_swap1)
  qed
qed

lemma validateSection_returns_sameBook:
  assumes "validateSection E v s = Some (Inr w)" and "sameBook x v"
  shows "\<exists>w'. validateSectionInternal E x s = Some (Inr w')"
proof -
  from assms(2) have "sameBook (v\<lparr>errors := []\<rparr>) x" by (simp add: sameBook_def)
  from validateSectionInternal_agree [OF this assms(1) [unfolded validateSection_def]]
  show ?thesis by auto
qed

lemma validateSections_returns:
  assumes "\<And>s. s \<in> set ids \<Longrightarrow> \<exists>w. validateSection E v s = Some (Inr w)"
  shows "sameBook x v \<Longrightarrow> \<exists>w. validateSections E ids x = Some (Inr w)"
  using assms
proof (induction ids arbitrary: x)
  case Nil
  show ?case by simp
next
  case (Cons sid ids)
  from Cons.prems(2) [of sid] obtain w where "validateSection E v sid = Some (Inr w)" by auto
  from validateSection_returns_sameBook [OF this Cons.prems(1)]
  obtain x1 where 1: "validateSectionInternal E x sid = Some (Inr x1)" by blast
  from validateSectionInternal_frame(1) [OF 1] Cons.prems(1) have "sameBook x1 v"
    by (rule sameBook_trans)
  from Cons.IH [OF this] Cons.prems(2) obtain w' where "validateSections E ids x1 = Some (Inr w')"
    by auto
  with 1 show ?case by simp
qed

lemma traverseSections_Some:
  assumes run: "traverseSections E l v sid = Some r"
  shows "\<exists>n. l \<notin> set (sectionChain (nextSection E v) sid n) \<and>
         validateSections E (sectionChain (nextSection E v) sid n) v = Some r \<and>
         ((\<exists>w. r = Inr w) \<longrightarrow> (nextSection E v ^^ n) sid = l)"
proof (rule traverseSections.raw_induct
    [where P = "\<lambda>E l v sid r. \<exists>n. l \<notin> set (sectionChain (nextSection E v) sid n) \<and>
         validateSections E (sectionChain (nextSection E v) sid n) v = Some r \<and>
         ((\<exists>w. r = Inr w) \<longrightarrow> (nextSection E v ^^ n) sid = l)",
     OF _ run])
  fix f E l v sid r
  assume IH: "\<And>E l v sid r. f E l v sid = Some r \<Longrightarrow>
      \<exists>n. l \<notin> set (sectionChain (nextSection E v) sid n) \<and>
         validateSections E (sectionChain (nextSection E v) sid n) v = Some r \<and>
         ((\<exists>w. r = Inr w) \<longrightarrow> (nextSection E v ^^ n) sid = l)"
    and body: "(if sid \<noteq> l
      then (case validateSectionInternal E v sid of
              None \<Rightarrow> None
            | Some (Inl e) \<Rightarrow> Some (Inl e)
            | Some (Inr v1) \<Rightarrow> f E l v1 (getNextSectionId E (currentSection v1)))
      else Some (Inr v)) = Some r"
  show "\<exists>n. l \<notin> set (sectionChain (nextSection E v) sid n) \<and>
         validateSections E (sectionChain (nextSection E v) sid n) v = Some r \<and>
         ((\<exists>w. r = Inr w) \<longrightarrow> (nextSection E v ^^ n) sid = l)"
  proof (cases "sid = l")
    case True
    with body have "r = Inr v" by simp
    with True show ?thesis by (intro exI [of _ 0]) simp
  next
    case False
    show ?thesis
    proof (cases "validateSectionInternal E v sid")
      case None
      with False body show ?thesis by simp
    next
      case (Some a)
      show ?thesis
      proof (cases a)
        case (Inl e)
        with Some False body have "r = Inl e" by simp
        with Some Inl False show ?thesis by (intro exI [of _ "Suc 0"]) simp
      next
        case (Inr v1)
        with Some have 1: "validateSectionInternal E v sid = Some (Inr v1)" by simp
        note fr = validateSectionInternal_frame [OF 1]
        have nx: "nextSection E v1 = nextSection E v" by (rule nextSection_cong [OF fr(1)])
        have "getNextSectionId E (currentSection v1) = nextSection E v sid"
          by (simp add: fr(3) nextSection_def)
        with 1 False body have "f E l v1 (nextSection E v sid) = Some r" by simp
        from IH [OF this] obtain n where
          n: "l \<notin> set (sectionChain (nextSection E v) (nextSection E v sid) n)"
             "validateSections E (sectionChain (nextSection E v) (nextSection E v sid) n) v1 = Some r"
             "(\<exists>w. r = Inr w) \<longrightarrow> (nextSection E v ^^ n) (nextSection E v sid) = l"
          unfolding nx by blast
        show ?thesis
          using n False 1 by (intro exI [of _ "Suc n"]) (simp add: funpow_swap1)
      qed
    qed
  qed
qed

lemma traverseSections_chain:
  "(nextSection E v ^^ n) sid = l \<Longrightarrow> l \<notin> set (sectionChain (nextSection E v) sid n) \<Longrightarrow>
     traverseSections E l v sid = validateSections E (sectionChain (nextSection E v) sid n) v"
proof (induction n arbitrary: v sid)
  case 0
  then show ?case by (subst traverseSections.simps) simp
next
  case (Suc n)
  from Suc.prems(2) have ne: "sid \<noteq> l" by auto
  show ?case
  proof (cases "validateSectionInternal E v sid")
    case None
    with ne show ?thesis by (subst traverseSections.simps) simp
  next
    case (Some a)
    show ?thesis
    proof (cases a)
      case (Inl e)
      with Some ne show ?thesis by (subst traverseSections.simps) simp
    next
      case (Inr v1)
      with Some have 1: "validateSectionInternal E v sid = Some (Inr v1)" by simp
      note fr = validateSectionInternal_frame [OF 1]
      have nx: "nextSection E v1 = nextSection E v" by (rule nextSection_cong [OF fr(1)])
      have g: "getNextSectionId E (currentSection v1) = nextSection E v sid"
        by (simp add: fr(3) nextSection_def)
      from Suc.prems have "(nextSection E v1 ^^ n) (nextSection E v sid) = l"
        "l \<notin> set (sectionChain (nextSection E v1) (nextSection E v sid) n)"
        by (simp_all add: funpow_swap1 nx)
      from Suc.IH [OF this]
      have rest: "traverseSections E l v1 (nextSection E v sid) =
          validateSections E (sectionChain (nextSection E v) (nextSection E v sid) n) v1"
        unfolding nx .
      have "traverseSections E l v sid = traverseSections E l v1 (nextSection E v sid)"
        using ne 1 g by (subst traverseSections.simps) simp
      with rest 1 show ?thesis by simp
    qed
  qed
qed

lemma traverseSections_agree_Some:
  assumes run: "traverseSections E l x sid = Some r"
  shows "\<forall>y. sameBook x y \<longrightarrow> errors x = errors y \<longrightarrow>
     (\<exists>r'. traverseSections E l y sid = Some r' \<and> map_sum id errors r = map_sum id errors r')"
proof (rule traverseSections.raw_induct
    [where P = "\<lambda>E l x sid r. \<forall>y. sameBook x y \<longrightarrow> errors x = errors y \<longrightarrow>
     (\<exists>r'. traverseSections E l y sid = Some r' \<and> map_sum id errors r = map_sum id errors r')",
     OF _ run])
  fix f E l x sid r
  assume IH: "\<And>E l x sid r. f E l x sid = Some r \<Longrightarrow>
      \<forall>y. sameBook x y \<longrightarrow> errors x = errors y \<longrightarrow>
        (\<exists>r'. traverseSections E l y sid = Some r' \<and> map_sum id errors r = map_sum id errors r')"
    and body: "(if sid \<noteq> l
      then (case validateSectionInternal E x sid of
              None \<Rightarrow> None
            | Some (Inl e) \<Rightarrow> Some (Inl e)
            | Some (Inr v1) \<Rightarrow> f E l v1 (getNextSectionId E (currentSection v1)))
      else Some (Inr x)) = Some r"
  show "\<forall>y. sameBook x y \<longrightarrow> errors x = errors y \<longrightarrow>
     (\<exists>r'. traverseSections E l y sid = Some r' \<and> map_sum id errors r = map_sum id errors r')"
  proof (intro allI impI)
    fix y :: BookValidator
    assume s: "sameBook x y" and e: "errors x = errors y"
    show "\<exists>r'. traverseSections E l y sid = Some r' \<and> map_sum id errors r = map_sum id errors r'"
    proof (cases "sid = l")
      case True
      with body have "r = Inr x" by simp
      moreover from True have "traverseSections E l y sid = Some (Inr y)"
        by (subst traverseSections.simps) simp
      ultimately show ?thesis using e by simp
    next
      case False
      from False body obtain a where a: "validateSectionInternal E x sid = Some a"
        by (cases "validateSectionInternal E x sid") simp_all
      from validateSectionInternal_agree [OF s a] obtain a' where
        a': "validateSectionInternal E y sid = Some a'"
        and rel: "case a of Inl e \<Rightarrow> a' = Inl e
          | Inr w \<Rightarrow> \<exists>w'. a' = Inr w' \<and> appended x w = appended y w' \<and> sameBook w w' \<and>
              currentSection w = currentSection w'"
        by blast
      show ?thesis
      proof (cases a)
        case (Inl ex)
        with rel have "a' = Inl ex" by simp
        moreover from Inl a False body have "r = Inl ex" by simp
        ultimately show ?thesis
          using a' False by (subst traverseSections.simps) simp
      next
        case (Inr w)
        with rel obtain w' where w': "a' = Inr w'" "appended x w = appended y w'"
          "sameBook w w'" "currentSection w = currentSection w'" by auto
        from a Inr have 1: "validateSectionInternal E x sid = Some (Inr w)" by simp
        from a' w'(1) have 2: "validateSectionInternal E y sid = Some (Inr w')" by simp
        have "errors w = errors x @ appended x w"
          using validateSectionInternal_frame(4) [OF 1] by (simp add: appended_def)
        moreover have "errors w' = errors y @ appended y w'"
          using validateSectionInternal_frame(4) [OF 2] by (simp add: appended_def)
        ultimately have ew: "errors w = errors w'" using e w'(2) by simp
        from 1 False body have "f E l w (getNextSectionId E (currentSection w)) = Some r" by simp
        from IH [OF this] w'(3) ew obtain r' where
          "traverseSections E l w' (getNextSectionId E (currentSection w)) = Some r'"
          "map_sum id errors r = map_sum id errors r'" by blast
        then show ?thesis
          using 2 False w'(4) by (subst traverseSections.simps) simp
      qed
    qed
  qed
qed

lemma traverseSections_agree:
  assumes s: "sameBook x y" and e: "errors x = errors y"
  shows "map_outcome errors (traverseSections E l x sid) = map_outcome errors (traverseSections E l y sid)"
proof (cases "traverseSections E l x sid")
  case None
  have "traverseSections E l y sid = None"
  proof (rule ccontr)
    assume "traverseSections E l y sid \<noteq> None"
    then obtain r where "traverseSections E l y sid = Some r" by blast
    from traverseSections_agree_Some [OF this] sameBook_sym [OF s] e None show False
      by auto
  qed
  with None show ?thesis by simp
next
  case (Some r)
  from traverseSections_agree_Some [OF Some] s e obtain r' where
    "traverseSections E l y sid = Some r'" "map_sum id errors r = map_sum id errors r'" by blast
  with Some show ?thesis by (simp add: map_outcome_def)
qed

section \<open>The validation against the XSD\<close>

lemma validateXml_frame:
  "sameBook (validateXml E v) v" "currentSection (validateXml E v) = currentSection v"
  by (simp_all add: validateXml_def Let_def sameBook_def)


lemma validateXml_agree:
  "sameBook u v \<Longrightarrow> errors u = errors v \<Longrightarrow> errors (validateXml E u) = errors (validateXml E v)"
  by (simp add: validateXml_def Let_def sameBook_def)

section \<open>The validation of the book\<close>

lemma validateBook_traverse:
  "validateBook E v =
     traverseSections E (getLastSectionId (mechanics v)) (validateXml E (v\<lparr>errors := []\<rparr>))
       (INITIAL_SECTION E)"
  using validateXml_frame(1) [of E "v\<lparr>errors := []\<rparr>"]
  by (simp add: validateBook_def Let_def sameBook_def)

lemma nextSection_validateXml: "nextSection E (validateXml E (v\<lparr>errors := es\<rparr>)) = nextSection E v"
proof -
  have "sameBook (validateXml E (v\<lparr>errors := es\<rparr>)) v"
    using validateXml_frame(1) [of E "v\<lparr>errors := es\<rparr>"] by (simp add: sameBook_def)
  then show ?thesis by (rule nextSection_cong)
qed

lemma validateBook_Some:
  "validateBook E v = Some r \<Longrightarrow>
     \<exists>n. getLastSectionId (mechanics v) \<notin> set (sectionChain (nextSection E v) (INITIAL_SECTION E) n) \<and>
         validateSections E (sectionChain (nextSection E v) (INITIAL_SECTION E) n)
           (validateXml E (v\<lparr>errors := []\<rparr>)) = Some r \<and>
         ((\<exists>w. r = Inr w) \<longrightarrow>
            (nextSection E v ^^ n) (INITIAL_SECTION E) = getLastSectionId (mechanics v))"
  unfolding validateBook_traverse
  using traverseSections_Some [where E = E and l = "getLastSectionId (mechanics v)"
      and v = "validateXml E (v\<lparr>errors := []\<rparr>)" and sid = "INITIAL_SECTION E" and r = r]
  unfolding nextSection_validateXml by blast

lemma validateBook_chain:
  "(nextSection E v ^^ n) (INITIAL_SECTION E) = getLastSectionId (mechanics v) \<Longrightarrow>
   getLastSectionId (mechanics v) \<notin> set (sectionChain (nextSection E v) (INITIAL_SECTION E) n) \<Longrightarrow>
     validateBook E v =
       validateSections E (sectionChain (nextSection E v) (INITIAL_SECTION E) n)
         (validateXml E (v\<lparr>errors := []\<rparr>))"
  unfolding validateBook_traverse
  using traverseSections_chain [where E = E and v = "validateXml E (v\<lparr>errors := []\<rparr>)" and n = n
      and sid = "INITIAL_SECTION E" and l = "getLastSectionId (mechanics v)"]
  unfolding nextSection_validateXml by blast

lemma validateBook_agree:
  assumes "sameBook u v"
  shows "map_outcome errors (validateBook E u) = map_outcome errors (validateBook E v)"
proof -
  let ?x = "validateXml E (u\<lparr>errors := []\<rparr>)" and ?y = "validateXml E (v\<lparr>errors := []\<rparr>)"
  have s0: "sameBook (u\<lparr>errors := []\<rparr>) (v\<lparr>errors := []\<rparr>)"
    using assms by (simp add: sameBook_def)
  have "sameBook ?x (u\<lparr>errors := []\<rparr>)" "sameBook ?y (v\<lparr>errors := []\<rparr>)"
    by (rule validateXml_frame)+
  with s0 have s: "sameBook ?x ?y"
    by (meson sameBook_sym sameBook_trans)
  have e: "errors ?x = errors ?y"
    by (rule validateXml_agree [OF s0]) simp
  have l: "getLastSectionId (mechanics u) = getLastSectionId (mechanics v)"
    using assms by (simp add: sameBook_def)
  show ?thesis
    unfolding validateBook_traverse l by (rule traverseSections_agree [OF s e])
qed

lemma validateSection_agree:
  assumes "sameBook u v"
  shows "map_outcome errors (validateSection E u sid) = map_outcome errors (validateSection E v sid)"
proof -
  let ?c = "validateSectionInternal E (blank v) sid"
  have su: "sameBook (u\<lparr>errors := []\<rparr>) v" and sv: "sameBook (v\<lparr>errors := []\<rparr>) v"
    using assms by (simp_all add: sameBook_def)
  have "validateSection E u sid = map_outcome (shift (inSection (u\<lparr>errors := []\<rparr>) sid)) ?c"
    unfolding validateSection_def by (rule validateSectionInternal_blank [OF su])
  moreover have "validateSection E v sid = map_outcome (shift (inSection (v\<lparr>errors := []\<rparr>) sid)) ?c"
    unfolding validateSection_def by (rule validateSectionInternal_blank [OF sv])
  ultimately show ?thesis
  proof (cases ?c)
    case None
    then show "validateSection E u sid = map_outcome (shift (inSection (u\<lparr>errors := []\<rparr>) sid)) ?c \<Longrightarrow>
      validateSection E v sid = map_outcome (shift (inSection (v\<lparr>errors := []\<rparr>) sid)) ?c \<Longrightarrow> ?thesis"
      by (simp add: map_outcome_def)
  next
    case (Some a)
    then show "validateSection E u sid = map_outcome (shift (inSection (u\<lparr>errors := []\<rparr>) sid)) ?c \<Longrightarrow>
      validateSection E v sid = map_outcome (shift (inSection (v\<lparr>errors := []\<rparr>) sid)) ?c \<Longrightarrow> ?thesis"
      by (cases a) (simp_all add: map_outcome_def shift_def inSection_def)
  qed
qed

lemma validateBook_frame:
  assumes "validateBook E v = Some (Inr w)"
  shows "sameBook w v"
proof -
  from validateBook_Some [OF assms] obtain n where
    "validateSections E (sectionChain (nextSection E v) (INITIAL_SECTION E) n)
       (validateXml E (v\<lparr>errors := []\<rparr>)) = Some (Inr w)" by blast
  from validateSections_result [OF this] have "sameBook w (validateXml E (v\<lparr>errors := []\<rparr>))"
    by simp
  moreover have "sameBook (validateXml E (v\<lparr>errors := []\<rparr>)) (v\<lparr>errors := []\<rparr>)"
    by (rule validateXml_frame)
  ultimately show ?thesis by (simp add: sameBook_def)
qed

lemma validateBook_errors:
  assumes "validateBook E v = Some (Inr v')"
  shows "\<exists>n. (nextSection E v ^^ n) (INITIAL_SECTION E) = getLastSectionId (mechanics v) \<and>
     getLastSectionId (mechanics v) \<notin> set (sectionChain (nextSection E v) (INITIAL_SECTION E) n) \<and>
     errors v' = errors (validateXml E (v\<lparr>errors := []\<rparr>)) @
       concat (map (sectionErrors E v) (sectionChain (nextSection E v) (INITIAL_SECTION E) n))"
proof -
  let ?x = "validateXml E (v\<lparr>errors := []\<rparr>)"
  from validateBook_Some [OF assms] obtain n where
    n: "getLastSectionId (mechanics v) \<notin> set (sectionChain (nextSection E v) (INITIAL_SECTION E) n)"
       "validateSections E (sectionChain (nextSection E v) (INITIAL_SECTION E) n) ?x = Some (Inr v')"
       "(nextSection E v ^^ n) (INITIAL_SECTION E) = getLastSectionId (mechanics v)"
    by blast
  have "sameBook ?x (v\<lparr>errors := []\<rparr>)" by (rule validateXml_frame)
  then have "sameBook ?x v" by (simp add: sameBook_def)
  then have "sectionErrors E ?x = sectionErrors E v"
    by (intro ext sectionErrors_cong)
  with validateSections_result [OF n(2)] n(1) n(3) show ?thesis by auto
qed


lemma validateSection_frame:
  assumes "validateSection E v sid = Some (Inr u)"
  shows "sameBook u v"
  using validateSectionInternal_frame(1) [OF assms [unfolded validateSection_def]]
  by (simp add: sameBook_def)



lemma sectionChain_nth_mem:
  "k < n \<Longrightarrow> (nxt ^^ k) sid \<in> set (sectionChain nxt sid n)"
proof (induction n arbitrary: sid k)
  case 0
  then show ?case by simp
next
  case (Suc n)
  show ?case
  proof (cases k)
    case 0
    then show ?thesis by simp
  next
    case (Suc j)
    with Suc.prems have "j < n" by simp
    from Suc.IH [OF this, of "nxt sid"] Suc show ?thesis by (simp add: funpow_swap1)
  qed
qed

lemma validateBook_returns:
  assumes every: "\<And>k. (\<forall>j \<le> k. (nextSection E v ^^ j) (INITIAL_SECTION E) \<noteq> getLastSectionId (mechanics v)) \<Longrightarrow>
      \<exists>w. validateSection E v ((nextSection E v ^^ k) (INITIAL_SECTION E)) = Some (Inr w)"
  shows "(\<exists>w. validateBook E v = Some (Inr w)) \<longleftrightarrow>
           (\<exists>n. (nextSection E v ^^ n) (INITIAL_SECTION E) = getLastSectionId (mechanics v))"
    and "validateBook E v = None \<longleftrightarrow>
           \<not> (\<exists>n. (nextSection E v ^^ n) (INITIAL_SECTION E) = getLastSectionId (mechanics v))"
proof -
  let ?x = "validateXml E (v\<lparr>errors := []\<rparr>)"
  let ?reach = "\<exists>n. (nextSection E v ^^ n) (INITIAL_SECTION E) = getLastSectionId (mechanics v)"
  have sx: "sameBook ?x v"
    using validateXml_frame(1) [of E "v\<lparr>errors := []\<rparr>"] by (simp add: sameBook_def)
  have chain: "\<exists>w. validateSections E (sectionChain (nextSection E v) (INITIAL_SECTION E) n) ?x = Some (Inr w)"
    if last: "getLastSectionId (mechanics v) \<notin> set (sectionChain (nextSection E v) (INITIAL_SECTION E) n)"
    for n
  proof (rule validateSections_returns [OF _ sx])
    fix s assume "s \<in> set (sectionChain (nextSection E v) (INITIAL_SECTION E) n)"
    from sectionChain_mem [OF this] obtain k where
      k: "k < n" "s = (nextSection E v ^^ k) (INITIAL_SECTION E)" by blast
    have "\<forall>j \<le> k. (nextSection E v ^^ j) (INITIAL_SECTION E) \<noteq> getLastSectionId (mechanics v)"
    proof (intro allI impI)
      fix j assume "j \<le> k"
      with k(1) have "j < n" by simp
      from sectionChain_nth_mem [OF this, of "nextSection E v" "INITIAL_SECTION E"] last
      show "(nextSection E v ^^ j) (INITIAL_SECTION E) \<noteq> getLastSectionId (mechanics v)"
        by auto
    qed
    from every [OF this] k(2) show "\<exists>w. validateSection E v s = Some (Inr w)" by simp
  qed
  have up: "\<exists>w. validateBook E v = Some (Inr w)" if ?reach
  proof -
    from that obtain n where "(nextSection E v ^^ n) (INITIAL_SECTION E) = getLastSectionId (mechanics v)"
      by blast
    from sectionChain_first [OF this] obtain m where
      m: "(nextSection E v ^^ m) (INITIAL_SECTION E) = getLastSectionId (mechanics v)"
         "getLastSectionId (mechanics v) \<notin> set (sectionChain (nextSection E v) (INITIAL_SECTION E) m)"
      by blast
    from validateBook_chain [OF m] chain [OF m(2)] show ?thesis by simp
  qed
  have down: ?reach if "validateBook E v = Some r" for r
  proof -
    from validateBook_Some [OF that] obtain n where
      n: "getLastSectionId (mechanics v) \<notin> set (sectionChain (nextSection E v) (INITIAL_SECTION E) n)"
         "validateSections E (sectionChain (nextSection E v) (INITIAL_SECTION E) n) ?x = Some r"
         "(\<exists>w. r = Inr w) \<longrightarrow>
            (nextSection E v ^^ n) (INITIAL_SECTION E) = getLastSectionId (mechanics v)"
      by blast
    from chain [OF n(1)] n(2) have "\<exists>w. r = Inr w" by auto
    with n(3) show ?thesis by blast
  qed
  show "(\<exists>w. validateBook E v = Some (Inr w)) \<longleftrightarrow> ?reach"
    using up down by blast
  show "validateBook E v = None \<longleftrightarrow> \<not> ?reach"
  proof
    assume "validateBook E v = None"
    with up show "\<not> ?reach" by auto
  next
    assume "\<not> ?reach"
    with down show "validateBook E v = None" by (cases "validateBook E v") auto
  qed
qed

section \<open>Runs on the example book\<close>

lemmas ex_defs = exE_def exBook_def exMechanics_def exValidator_def exResult_def exBounds_def
  exParseInt_def exPickUnknown_def exPickSword_def exTable_def exTableNoCases_def
  exTableNoLink_def exPickEmpty_def exTableHuge_def exTableHugeTwice_def exXmlRule_def

lemmas run_defs = validateSection_def validateSectionInternal_def validateChildrenRules_def
  new_Section_def thisMember_def pick_def randomTable_def caseRule_def test_def
  findRandomLink_def validateObjectIdsAttribute_def getPropertyValueAsArray_def
  validateNumericExpression_def addError_def formatError_def attr_def truthy_def jq_truthy_def
  dq_def Let_def coverChild_def coverNumber_def contains_def validateXml_def validateBook_def

lemma exBook_run:
  "validateBook exE (exValidator [exPickUnknown]) =
     Some (Inr (exResult [exPickUnknown]
        [''The XSD for mechanics validation has not been downloaded'',
         ''Section sect1, rule pick: Object id axe not found'']))"
  by (simp add: ex_defs run_defs traverseSections.simps)

lemma exSection_run:
  "validateSection exE (exValidator [exPickUnknown]) ''sect1'' =
     Some (Inr (exResult [exPickUnknown] [''Section sect1, rule pick: Object id axe not found'']))"
  by (simp add: ex_defs run_defs)





lemma exTable_link: "linkRaises exE v rule = None"
  by (simp add: linkRaises_def findRandomLink_def exE_def)

lemma exHuge_stuck:
  "coverNumbers (Num 9007199254740992) (Num 9007199254740992) s = None"
  by (rule coverNumbers_stuck) (simp_all add: js_inc_def)

lemma exTableHuge_run: "randomTable exE v exTableHuge = None"
  by (simp add: randomTable_def randomTable_link findRandomLink_def coverChild_def exHuge_stuck
      exTableHuge_def exE_def exBounds_def exParseInt_def attr_def)


lemma exTableHuge_book: "validateBook exE (exValidator [exTableHuge]) = None"
proof -
  have r: "randomTable exE v (Node ''randomTable'' [] [Node ''case'' [(''value'', ''9007199254740992'')] []]) = None"
    for v
    using exTableHuge_run [of v] by (simp add: exTableHuge_def)
  have e: "INITIAL_SECTION exE = ''tssf''"
    "getNextSectionId exE = (\<lambda>s. if sectionId s = ''tssf'' then ''sect1'' else ''sect2'')"
    by (simp_all add: exE_def)
  show ?thesis
    by (simp add: e exBook_def exMechanics_def exValidator_def exTableHuge_def
        validateBook_def validateXml_def truthy_def validateSectionInternal_def
        validateChildrenRules_def new_Section_def thisMember_def r traverseSections.simps)
qed

section \<open>Facts shared by the properties\<close>





lemma randomTable_never_reports_link:
  "randomTable E v rule = Some (Inr v') \<Longrightarrow>
     formatError (sectionId (currentSection v)) (nodeName rule) ''Link to random table not found''
       \<notin> set (appended v v')"
  unfolding randomTable_def randomTable_link
  by (auto simp: appended_def addError_def Let_def formatError_def
      split: if_splits option.splits sum.splits prod.splits)

lemma randomTable_no_case:
  assumes "\<forall>c \<in> set (children rule). nodeName c \<noteq> ''case''"
  shows "randomTable E v rule =
     (case linkRaises E v rule of None \<Rightarrow> Some (Inr v) | Some e \<Rightarrow> Some (Inl e))"
  unfolding randomTable_def randomTable_link coverChildren_no_case [OF assms] linkRaises_def
  by (simp split: sum.splits)

section \<open>The properties of the specification\<close>

subsection \<open>Random tables\<close>

text \<open>
  C1. A \<open>randomTable\<close> rule without a \<open>text-en\<close> attribute is to report
  \<open>Link to random table not found\<close> when the section holds no link to the random table at
  the rule's index. The code tests the jQuery object that \<open>find\<close> returns, not its
  length, and the object is truthy also when it holds no element: on the example book,
  where the section holds no link, validating a section whose only rule is a random
  table without attributes returns with an empty error list.
\<close>

theorem randomTable_link_not_checked:
  "attr exTableNoLink ''text-en'' = None \<and>
   jq_find exE (getSectionXml exBook ''sect1'') ''a[href=random]:eq( 0)'' = Inr [] \<and>
   map_outcome errors (validateSection exE (exValidator [exTableNoLink]) ''sect1'') = Some (Inr [])"
  by (simp add: ex_defs run_defs map_outcome_def)







text \<open>
  C6. The validation of a \<open>randomTable\<close> rule without a \<open>case\<close> child returns the
  validator as it is, or raises what the lookup of the link raises: it appends neither
  \<open>Missed numbers\<close> nor \<open>Overlapped numbers\<close>, whatever the attributes of the rule.
\<close>

theorem randomTable_no_cases:
  "\<forall>c \<in> set (children rule). nodeName c \<noteq> ''case'' \<Longrightarrow>
     randomTable E v rule =
       (case linkRaises E v rule of None \<Rightarrow> Some (Inr v) | Some e \<Rightarrow> Some (Inl e)) \<and>
     (\<forall>v'. randomTable E v rule = Some (Inr v') \<longrightarrow>
        formatError (sectionId (currentSection v)) (nodeName rule) ''Missed numbers''
          \<notin> set (appended v v') \<and>
        formatError (sectionId (currentSection v)) (nodeName rule) ''Overlapped numbers''
          \<notin> set (appended v v'))"
proof -
  assume n: "\<forall>c \<in> set (children rule). nodeName c \<noteq> ''case''"
  note r = randomTable_no_case [OF n, of E v]
  have "v' = v" if "randomTable E v rule = Some (Inr v')" for v'
    using that unfolding r by (cases "linkRaises E v rule") simp_all
  then have "\<forall>v'. randomTable E v rule = Some (Inr v') \<longrightarrow>
        formatError (sectionId (currentSection v)) (nodeName rule) ''Missed numbers''
          \<notin> set (appended v v') \<and>
        formatError (sectionId (currentSection v)) (nodeName rule) ''Overlapped numbers''
          \<notin> set (appended v v')"
    by (auto simp: appended_def)
  with r show ?thesis by blast
qed

theorem randomTable_no_cases_witness:
  "attr exTableNoCases ''zeroAsTen'' = Some ''true'' \<and>
   randomTable exE (exValidator [exTableNoCases]) exTableNoCases =
     Some (Inr (exValidator [exTableNoCases])) \<and>
   formatError ''tssf'' ''randomTable'' ''Missed numbers''
     \<notin> set (appended (exValidator [exTableNoCases]) (exValidator [exTableNoCases])) \<and>
   formatError ''tssf'' ''randomTable'' ''Overlapped numbers''
     \<notin> set (appended (exValidator [exTableNoCases]) (exValidator [exTableNoCases]))"
proof -
  have h: "\<forall>c \<in> set (children exTableNoCases). nodeName c \<noteq> ''case''"
    by (simp add: exTableNoCases_def)
  have s: "sectionId (currentSection (exValidator [exTableNoCases])) = ''tssf''"
    "nodeName exTableNoCases = ''randomTable''"
    by (simp_all add: exValidator_def new_Section_def exTableNoCases_def)
  have a: "attr exTableNoCases ''zeroAsTen'' = Some ''true''"
    by (simp add: attr_def exTableNoCases_def)
  show ?thesis
    using a randomTable_no_cases [OF h, of exE "exValidator [exTableNoCases]"]
      exTable_link [of "exValidator [exTableNoCases]" exTableNoCases]
    by (simp add: s)
qed

subsection \<open>Pick rules\<close>

text \<open>
  C3, as the code has it. A \<open>pick\<close> rule appends no error exactly when one and only one
  of the attributes \<open>objectId\<close> and \<open>class\<close> has a non-empty value, \<open>count\<close> has a
  non-empty value whenever \<open>class\<close> has one, and the object id, when given, is an object
  of the mechanics. The errors of \<open>pick\<close> are those it appends to the list it is given.
\<close>

theorem pick_no_error_iff:
  "errors (pick E v rule) = errors v @ appended v (pick E v rule) \<and>
   (appended v (pick E v rule) = [] \<longleftrightarrow>
      (truthy (attr rule ''objectId'') \<noteq> truthy (attr rule ''class'')) \<and>
      (truthy (attr rule ''class'') \<longrightarrow> truthy (attr rule ''count'')) \<and>
      (\<forall>i. attr rule ''objectId'' = Some i \<and> i \<noteq> [] \<longrightarrow> getObject (mechanics v) i \<noteq> None))"
  unfolding pick_def validateObjectIdsAttribute_def getPropertyValueAsArray_def
    validateNumericExpression_def addError_def appended_def truthy_def Let_def
  by (cases "attr rule ''objectId''"; cases "attr rule ''class''"; cases "attr rule ''count''")
     auto

theorem pick_no_error_witness:
  "truthy (attr exPickSword ''objectId'') \<and> \<not> truthy (attr exPickSword ''class'') \<and>
   getObject (mechanics (exValidator [exPickSword])) ''sword'' = Some ''Sword'' \<and>
   appended (exValidator [exPickSword]) (pick exE (exValidator [exPickSword]) exPickSword) = []"
proof -
  have a: "attr exPickSword ''objectId'' = Some ''sword''" "attr exPickSword ''class'' = None"
    by (simp_all add: attr_def exPickSword_def)
  have g: "getObject (mechanics (exValidator [exPickSword])) ''sword'' = Some ''Sword''"
    by (simp add: exValidator_def exMechanics_def)
  show ?thesis
    using pick_no_error_iff [of exE "exValidator [exPickSword]" exPickSword] g
    by (simp add: a truthy_def)
qed

text \<open>
  C3 as the specification states it (no error exactly when one of \<open>objectId\<close> and
  \<open>class\<close> is present, and \<open>count\<close> is present with \<open>class\<close>) fails for a pick of an
  object id the mechanics does not define, and for a pick whose \<open>objectId\<close> is the empty
  string: each has the one attribute, and each appends an error.
\<close>

theorem pick_claim_counterexample:
  "\<not> (appended (exValidator [exPickUnknown]) (pick exE (exValidator [exPickUnknown]) exPickUnknown) = [] \<longleftrightarrow>
        ((attr exPickUnknown ''objectId'' \<noteq> None) \<noteq> (attr exPickUnknown ''class'' \<noteq> None)) \<and>
        (attr exPickUnknown ''class'' \<noteq> None \<longrightarrow> attr exPickUnknown ''count'' \<noteq> None)) \<and>
   \<not> (appended (exValidator [exPickEmpty]) (pick exE (exValidator [exPickEmpty]) exPickEmpty) = [] \<longleftrightarrow>
        ((attr exPickEmpty ''objectId'' \<noteq> None) \<noteq> (attr exPickEmpty ''class'' \<noteq> None)) \<and>
        (attr exPickEmpty ''class'' \<noteq> None \<longrightarrow> attr exPickEmpty ''count'' \<noteq> None))"
  by (simp add: ex_defs run_defs appended_def)

subsection \<open>The error list\<close>




text \<open>
  C7. \<open>validateSection\<close> and \<open>validateBook\<close> empty the error list before they validate.
  Whatever error list the validator holds, the call does what it does without it; and
  after an earlier call of either operation has returned, the errors of a call are the
  errors the same call gives on the validator the earlier call started from. More
  generally, the errors of a call are the same on any two validators of the same
  mechanics, book and XSD, whatever errors, current section and prints they hold.
\<close>

theorem validate_resets_errors:
  "validateSection E (v\<lparr>errors := es\<rparr>) sid = validateSection E v sid \<and>
   validateBook E (v\<lparr>errors := es\<rparr>) = validateBook E v \<and>
   (validateSection E v sid' = Some (Inr u) \<longrightarrow>
      map_outcome errors (validateSection E u sid) = map_outcome errors (validateSection E v sid) \<and>
      map_outcome errors (validateBook E u) = map_outcome errors (validateBook E v)) \<and>
   (validateBook E v = Some (Inr w) \<longrightarrow>
      map_outcome errors (validateSection E w sid) = map_outcome errors (validateSection E v sid) \<and>
      map_outcome errors (validateBook E w) = map_outcome errors (validateBook E v)) \<and>
   (sameBook x v \<longrightarrow>
      map_outcome errors (validateSection E x sid) = map_outcome errors (validateSection E v sid) \<and>
      map_outcome errors (validateBook E x) = map_outcome errors (validateBook E v))"
proof -
  have 1: "validateSection E (v\<lparr>errors := es\<rparr>) sid = validateSection E v sid"
    by (simp add: validateSection_def)
  have 2: "validateBook E (v\<lparr>errors := es\<rparr>) = validateBook E v"
    by (simp add: validateBook_def)
  have 5: "map_outcome errors (validateSection E x sid) = map_outcome errors (validateSection E v sid) \<and>
      map_outcome errors (validateBook E x) = map_outcome errors (validateBook E v)"
    if "sameBook x v" for x
    using that validateSection_agree validateBook_agree by blast
  have 3: "map_outcome errors (validateSection E u sid) = map_outcome errors (validateSection E v sid) \<and>
      map_outcome errors (validateBook E u) = map_outcome errors (validateBook E v)"
    if "validateSection E v sid' = Some (Inr u)"
    by (rule 5) (rule validateSection_frame [OF that])
  have 4: "map_outcome errors (validateSection E w sid) = map_outcome errors (validateSection E v sid) \<and>
      map_outcome errors (validateBook E w) = map_outcome errors (validateBook E v)"
    if "validateBook E v = Some (Inr w)"
    by (rule 5) (rule validateBook_frame [OF that])
  from 1 2 3 4 5 show ?thesis by blast
qed

theorem validate_resets_errors_witness:
  "validateBook exE (exValidator [exPickUnknown]) =
     Some (Inr (exResult [exPickUnknown]
        [''The XSD for mechanics validation has not been downloaded'',
         ''Section sect1, rule pick: Object id axe not found''])) \<and>
   map_outcome errors (validateSection exE (exResult [exPickUnknown]
        [''The XSD for mechanics validation has not been downloaded'',
         ''Section sect1, rule pick: Object id axe not found'']) ''sect1'') =
     Some (Inr [''Section sect1, rule pick: Object id axe not found''])"
proof -
  have a: "map_outcome errors (validateSection exE (exValidator [exPickUnknown]) ''sect1'') =
     Some (Inr [''Section sect1, rule pick: Object id axe not found''])"
    by (simp add: exSection_run map_outcome_def exResult_def)
  from validate_resets_errors [where E = exE and v = "exValidator [exPickUnknown]"
      and sid = "''sect1''" and w = "exResult [exPickUnknown]
        [''The XSD for mechanics validation has not been downloaded'',
         ''Section sect1, rule pick: Object id axe not found'']"] exBook_run
  have "map_outcome errors (validateSection exE (exResult [exPickUnknown]
        [''The XSD for mechanics validation has not been downloaded'',
         ''Section sect1, rule pick: Object id axe not found'']) ''sect1'') =
      map_outcome errors (validateSection exE (exValidator [exPickUnknown]) ''sect1'')"
    by blast
  with a exBook_run show ?thesis by simp
qed

subsection \<open>Validation against the XSD\<close>

text \<open>
  C8. When the XSD is not downloaded, \<open>validateXml\<close> appends its one message and changes
  nothing else: the result does not depend on the schema validator and nothing is
  printed. \<open>validateBook\<close> then walks the sections from the state that holds this one
  error, so that the errors of the rules follow it.
\<close>

theorem validateXml_schema_not_loaded:
  "\<not> truthy (xsdText v) \<Longrightarrow>
     validateXml E v =
       v\<lparr>errors := errors v @ [''The XSD for mechanics validation has not been downloaded'']\<rparr> \<and>
     validateBook E v =
       traverseSections E (getLastSectionId (mechanics v))
         (v\<lparr>errors := [''The XSD for mechanics validation has not been downloaded'']\<rparr>)
         (INITIAL_SECTION E)"
  by (simp add: validateXml_def validateBook_def)

theorem validateXml_schema_not_loaded_witness:
  "\<not> truthy (xsdText (exValidator [exPickUnknown])) \<and>
   errors (validateXml exE (exValidator [exPickUnknown])) =
     [''stale'', ''The XSD for mechanics validation has not been downloaded''] \<and>
   console (validateXml exE (exValidator [exPickUnknown])) = [] \<and>
   traverseSections exE ''sect2''
     ((exValidator [exPickUnknown])\<lparr>errors := [''The XSD for mechanics validation has not been downloaded'']\<rparr>)
     ''tssf'' =
     Some (Inr (exResult [exPickUnknown]
        [''The XSD for mechanics validation has not been downloaded'',
         ''Section sect1, rule pick: Object id axe not found'']))"
proof -
  have h: "\<not> truthy (xsdText (exValidator [exPickUnknown]))"
    by (simp add: truthy_def exValidator_def)
  have e: "errors (exValidator [exPickUnknown]) = [''stale'']"
    "console (exValidator [exPickUnknown]) = []"
    "getLastSectionId (mechanics (exValidator [exPickUnknown])) = ''sect2''"
    "INITIAL_SECTION exE = ''tssf''"
    by (simp_all add: exValidator_def exMechanics_def exE_def)
  show ?thesis
    using h validateXml_schema_not_loaded [OF h, of exE] exBook_run
    by (simp add: e)
qed

subsection \<open>The walk over the book\<close>

text \<open>
  C9. \<open>validateBook\<close> does not validate the last section: when it returns, its result is
  the result of \<open>validateXml\<close> followed by the validation of the sections on the chain
  of next-section links from the initial section up to, and without, the last section.
\<close>

theorem validateBook_skips_last_section:
  "validateBook E v = Some (Inr v') \<Longrightarrow>
     \<exists>n. (nextSection E v ^^ n) (INITIAL_SECTION E) = getLastSectionId (mechanics v) \<and>
         getLastSectionId (mechanics v) \<notin> set (sectionChain (nextSection E v) (INITIAL_SECTION E) n) \<and>
         validateSections E (sectionChain (nextSection E v) (INITIAL_SECTION E) n)
           (validateXml E (v\<lparr>errors := []\<rparr>)) = Some (Inr v')"
  using validateBook_Some [of E v "Inr v'"] by blast

theorem validateBook_skips_last_section_witness:
  "validateBook exE (exValidator [exPickUnknown]) =
     Some (Inr (exResult [exPickUnknown]
        [''The XSD for mechanics validation has not been downloaded'',
         ''Section sect1, rule pick: Object id axe not found''])) \<and>
   (\<exists>n. (nextSection exE (exValidator [exPickUnknown]) ^^ n) ''tssf'' = ''sect2'' \<and>
        ''sect2'' \<notin> set (sectionChain (nextSection exE (exValidator [exPickUnknown])) ''tssf'' n) \<and>
        validateSections exE
          (sectionChain (nextSection exE (exValidator [exPickUnknown])) ''tssf'' n)
          (validateXml exE ((exValidator [exPickUnknown])\<lparr>errors := []\<rparr>)) =
        Some (Inr (exResult [exPickUnknown]
          [''The XSD for mechanics validation has not been downloaded'',
           ''Section sect1, rule pick: Object id axe not found''])))"
proof -
  have e: "getLastSectionId (mechanics (exValidator [exPickUnknown])) = ''sect2''"
    "INITIAL_SECTION exE = ''tssf''"
    by (simp_all add: exValidator_def exMechanics_def exE_def)
  show ?thesis
    using exBook_run validateBook_skips_last_section [OF exBook_run]
    by (simp add: e)
qed

text \<open>
  C10 as the specification states it (\<open>validateBook\<close> returns if the chain of
  next-section links reaches the last section) fails on the example book with a random
  table whose case has the value \<open>2^53\<close>: the chain reaches the last section in two steps,
  and \<open>validateBook\<close> does not return, because the validation of the rule does not.
\<close>

theorem validateBook_terminates_counterexample:
  "(nextSection exE (exValidator [exTableHuge]) ^^ 2) (INITIAL_SECTION exE) =
     getLastSectionId (mechanics (exValidator [exTableHuge])) \<and>
   validateBook exE (exValidator [exTableHuge]) = None"
proof -
  have "(nextSection exE (exValidator [exTableHuge]) ^^ 2) (INITIAL_SECTION exE) =
     getLastSectionId (mechanics (exValidator [exTableHuge]))"
    by (simp add: numeral_2_eq_2 nextSection_def new_Section_def exE_def exValidator_def
        exMechanics_def)
  with exTableHuge_book show ?thesis by simp
qed

text \<open>
  C10, as the code has it. \<open>validateBook\<close> returns only if the chain of next-section
  links from the initial section reaches the last section of the mechanics after
  finitely many steps. When the validation of every section on the chain before the last
  section returns, \<open>validateBook\<close> returns exactly when the chain reaches the last
  section, and its loop does not return exactly when the chain never does.
\<close>

theorem validateBook_terminates_iff:
  "(validateBook E v = Some (Inr v') \<longrightarrow>
      (\<exists>n. (nextSection E v ^^ n) (INITIAL_SECTION E) = getLastSectionId (mechanics v))) \<and>
   ((\<forall>k. (\<forall>j \<le> k. (nextSection E v ^^ j) (INITIAL_SECTION E) \<noteq> getLastSectionId (mechanics v)) \<longrightarrow>
         (\<exists>w. validateSection E v ((nextSection E v ^^ k) (INITIAL_SECTION E)) = Some (Inr w))) \<longrightarrow>
      ((\<exists>w. validateBook E v = Some (Inr w)) \<longleftrightarrow>
         (\<exists>n. (nextSection E v ^^ n) (INITIAL_SECTION E) = getLastSectionId (mechanics v))) \<and>
      (validateBook E v = None \<longleftrightarrow>
         \<not> (\<exists>n. (nextSection E v ^^ n) (INITIAL_SECTION E) = getLastSectionId (mechanics v))))"
proof (intro conjI impI)
  assume "validateBook E v = Some (Inr v')"
  from validateBook_errors [OF this]
  show "\<exists>n. (nextSection E v ^^ n) (INITIAL_SECTION E) = getLastSectionId (mechanics v)"
    by blast
next
  assume a: "\<forall>k. (\<forall>j \<le> k. (nextSection E v ^^ j) (INITIAL_SECTION E) \<noteq> getLastSectionId (mechanics v)) \<longrightarrow>
         (\<exists>w. validateSection E v ((nextSection E v ^^ k) (INITIAL_SECTION E)) = Some (Inr w))"
  then have every: "\<And>k. (\<forall>j \<le> k. (nextSection E v ^^ j) (INITIAL_SECTION E) \<noteq> getLastSectionId (mechanics v)) \<Longrightarrow>
      \<exists>w. validateSection E v ((nextSection E v ^^ k) (INITIAL_SECTION E)) = Some (Inr w)"
    by blast
  show "(\<exists>w. validateBook E v = Some (Inr w)) \<longleftrightarrow>
         (\<exists>n. (nextSection E v ^^ n) (INITIAL_SECTION E) = getLastSectionId (mechanics v))"
    by (rule validateBook_returns(1) [OF every])
  show "validateBook E v = None \<longleftrightarrow>
         \<not> (\<exists>n. (nextSection E v ^^ n) (INITIAL_SECTION E) = getLastSectionId (mechanics v))"
    by (rule validateBook_returns(2) [OF every])
qed

theorem validateBook_terminates_iff_witness:
  "(\<exists>w. validateBook exE (exValidator []) = Some (Inr w)) \<and>
   validateBook (exE\<lparr>getNextSectionId := (\<lambda>s. ''tssf'')\<rparr>) (exValidator []) = None"
proof -
  let ?loop = "exE\<lparr>getNextSectionId := (\<lambda>s. ''tssf'')\<rparr>"
  have every: "\<forall>k. (\<forall>j \<le> k. (nextSection E (exValidator []) ^^ j) (INITIAL_SECTION E) \<noteq>
        getLastSectionId (mechanics (exValidator []))) \<longrightarrow>
      (\<exists>w. validateSection E (exValidator []) ((nextSection E (exValidator []) ^^ k) (INITIAL_SECTION E)) = Some (Inr w))"
    for E
    by (simp add: validateSection_def validateSectionInternal_def validateChildrenRules_def
        exValidator_def exMechanics_def)
  have "(nextSection exE (exValidator []) ^^ Suc (Suc 0)) (INITIAL_SECTION exE) =
      getLastSectionId (mechanics (exValidator []))"
    by (simp add: nextSection_def new_Section_def exE_def exValidator_def exMechanics_def)
  then have "\<exists>n. (nextSection exE (exValidator []) ^^ n) (INITIAL_SECTION exE) =
      getLastSectionId (mechanics (exValidator []))" by blast
  then have a: "\<exists>w. validateBook exE (exValidator []) = Some (Inr w)"
    using validateBook_terminates_iff [of exE "exValidator []"] every [of exE] by blast
  have "(nextSection ?loop (exValidator []) ^^ n) (INITIAL_SECTION ?loop) = ''tssf''" for n
    by (induction n) (simp_all add: nextSection_def exE_def)
  then have "\<not> (\<exists>n. (nextSection ?loop (exValidator []) ^^ n) (INITIAL_SECTION ?loop) =
      getLastSectionId (mechanics (exValidator [])))"
    by (simp add: exValidator_def exMechanics_def)
  then have b: "validateBook ?loop (exValidator []) = None"
    using validateBook_terminates_iff [of ?loop "exValidator []"] every [of ?loop] by blast
  from a b show ?thesis ..
qed

end
